theory Spec2Isabelle
  imports Main "HOL-Library.Sublist" "HOL-Library.Char_ord"
begin

section \<open>Strings\<close>

text \<open>
  A \<open>std::string\<close> is a list of bytes.  The helpers below are the members of
  \<open>std::string\<close> and the character functions of the C library the scraper calls, in the C locale.
  \<open>npos\<close> is \<open>None\<close>.
\<close>

definition tolower :: "char \<Rightarrow> char" where
  "tolower c =
     (case map_of (zip ''ABCDEFGHIJKLMNOPQRSTUVWXYZ'' ''abcdefghijklmnopqrstuvwxyz'') c of
        Some d \<Rightarrow> d
      | None \<Rightarrow> c)"

definition isspace :: "char \<Rightarrow> bool" where
  "isspace c = (c = CHR '' '' \<or> (CHR 0x09 \<le> c \<and> c \<le> CHR 0x0D))"

text \<open>\<open>std::transform(s.begin(), s.end(), s.begin(), ::tolower)\<close>\<close>

definition lowercase :: "string \<Rightarrow> string" where
  "lowercase s = map tolower s"

text \<open>\<open>hay.find(needle, pos)\<close>: the first index \<open>i \<ge> pos\<close> at which \<open>needle\<close> occurs.\<close>

fun str_find_aux :: "string \<Rightarrow> string \<Rightarrow> nat \<Rightarrow> nat option" where
  "str_find_aux needle [] i = (if needle = [] then Some i else None)"
| "str_find_aux needle (c # cs) i =
     (if prefix needle (c # cs) then Some i else str_find_aux needle cs (Suc i))"

definition str_find :: "string \<Rightarrow> string \<Rightarrow> nat \<Rightarrow> nat option" where
  "str_find hay needle pos =
     (if pos > length hay then None else str_find_aux needle (drop pos hay) pos)"

text \<open>\<open>hay.find(needle) != std::string::npos\<close>\<close>

definition contains :: "string \<Rightarrow> string \<Rightarrow> bool" where
  "contains hay needle = (str_find hay needle 0 \<noteq> None)"

section \<open>JSON values\<close>

text \<open>
  The values of \<open>nlohmann::json\<close> the scraper builds.  An object is kept as the list of
  its members; no operation modelled here observes the order of the keys.
\<close>

datatype json =
    JNull
  | JBool bool
  | JNumber int
  | JString string
  | JArray "json list"
  | JObject "(string \<times> json) list"

text \<open>
  \<open>j.value(key, "")\<close> with a string default: the member's string, the default when the
  key is absent; a \<open>type_error\<close> exception (\<open>None\<close>) when \<open>j\<close> is not an object or the
  member is not a string.
\<close>

fun json_value :: "json \<Rightarrow> string \<Rightarrow> string \<Rightarrow> string option" where
  "json_value (JObject kvs) key dflt =
     (case map_of kvs key of
        None \<Rightarrow> Some dflt
      | Some (JString s) \<Rightarrow> Some s
      | Some _ \<Rightarrow> None)"
| "json_value _ key dflt = None"

text \<open>\<open>j.empty()\<close>: null and containers without elements are empty, scalars are not.\<close>

fun json_empty :: "json \<Rightarrow> bool" where
  "json_empty JNull = True"
| "json_empty (JArray xs) = (xs = [])"
| "json_empty (JObject kvs) = (kvs = [])"
| "json_empty _ = False"

text \<open>\<open>j[key] = v\<close> on the members of an object.\<close>

fun obj_set :: "string \<Rightarrow> json \<Rightarrow> (string \<times> json) list \<Rightarrow> (string \<times> json) list" where
  "obj_set k v [] = [(k, v)]"
| "obj_set k v ((k', v') # kvs) =
     (if k = k' then (k, v) # kvs else (k', v') # obj_set k v kvs)"

section \<open>Deduplicator\<close>

text \<open>
  The body of the loop of \<open>deduplicate_jobs\<close> first builds the fingerprint of a job:
  title and company, each read with default \<open>""\<close> and lower-cased, joined by \<open>|\<close>.
\<close>

definition fingerprint :: "json \<Rightarrow> string option" where
  "fingerprint job =
     (case json_value job ''title'' '''' of
        None \<Rightarrow> None
      | Some title \<Rightarrow>
          (case json_value job ''company'' '''' of
             None \<Rightarrow> None
           | Some company \<Rightarrow> Some (lowercase title @ ''|'' @ lowercase company)))"

text \<open>
  The loop over \<open>jobs\<close>, with the vector \<open>unique_jobs\<close> and the set
  \<open>seen_fingerprints\<close> as explicit state.
\<close>

fun deduplicate_loop :: "json list \<Rightarrow> json list \<Rightarrow> string set \<Rightarrow> json list option" where
  "deduplicate_loop [] unique_jobs seen_fingerprints = Some unique_jobs"
| "deduplicate_loop (job # jobs) unique_jobs seen_fingerprints =
     (case fingerprint job of
        None \<Rightarrow> None
      | Some fp \<Rightarrow>
          if fp \<notin> seen_fingerprints
          then deduplicate_loop jobs (unique_jobs @ [job]) (insert fp seen_fingerprints)
          else deduplicate_loop jobs unique_jobs seen_fingerprints)"

definition deduplicate_jobs :: "json list \<Rightarrow> json list option" where
  "deduplicate_jobs jobs = deduplicate_loop jobs [] {}"



text \<open>
  Auxiliary: the records a pass keeps, written as a function of the input and of the
  fingerprints seen so far.
\<close>

fun survivors :: "json list \<Rightarrow> string set \<Rightarrow> json list" where
  "survivors [] seen = []"
| "survivors (job # jobs) seen =
     (case fingerprint job of
        None \<Rightarrow> survivors jobs seen
      | Some fp \<Rightarrow>
          if fp \<in> seen then survivors jobs seen
          else job # survivors jobs (insert fp seen))"






section \<open>Parsed documents and the selector engine\<close>

text \<open>
  A node of the tree the Gumbo parser returns.  The constructor is the node's \<open>type\<close>
  (\<open>GUMBO_NODE_DOCUMENT\<close>, \<open>ELEMENT\<close>, \<open>TEMPLATE\<close>, \<open>TEXT\<close>, \<open>CDATA\<close>, \<open>COMMENT\<close>,
  \<open>WHITESPACE\<close>).  An element carries its tag (\<open>None\<close> is \<open>GUMBO_TAG_UNKNOWN\<close>, \<open>Some name\<close>
  a known tag with its normalized name), its attributes as (name, value) pairs and its
  children.
\<close>

datatype GumboNode =
    Document "GumboNode list"
  | Element "string option" "(string \<times> string) list" "GumboNode list"
  | Template "string option" "(string \<times> string) list" "GumboNode list"
  | Text string
  | Cdata string
  | Comment string
  | Whitespace string

text \<open>
  \<open>gumbo_get_attribute\<close> of the parser library: the first attribute whose name equals
  \<open>name\<close>, compared without regard to ASCII case.
\<close>

fun gumbo_get_attribute :: "(string \<times> string) list \<Rightarrow> string \<Rightarrow> string option" where
  "gumbo_get_attribute [] name = None"
| "gumbo_get_attribute ((n, v) # attrs) name =
     (if lowercase n = lowercase name then Some v else gumbo_get_attribute attrs name)"

text \<open>The double quote character.\<close>

abbreviation dquote :: char where
  "dquote \<equiv> CHR 0x22"

text \<open>
  The value a selector quotes: the selector from two characters after the first \<open>="\<close> on
  (\<open>substr(find + 2)\<close>), cut before the next double quote (\<open>substr(0, find)\<close>).  When
  \<open>="\<close> does not occur, \<open>npos + 2\<close> wraps around to \<open>1\<close>; when no closing quote occurs,
  \<open>substr(0, npos)\<close> is the whole string.
\<close>

definition quoted_value :: "string \<Rightarrow> string" where
  "quoted_value selector =
     (let v = drop (case str_find selector [CHR ''='', dquote] 0 of None \<Rightarrow> 1 | Some p \<Rightarrow> p + 2) selector
      in case str_find v [dquote] 0 of None \<Rightarrow> v | Some q \<Rightarrow> take q v)"

text \<open>The two tests of \<open>find_nodes\<close> on an element.\<close>

definition match_tag :: "string option \<Rightarrow> string \<Rightarrow> bool" where
  "match_tag etag tag = (tag = [] \<or> (etag \<noteq> None \<and> etag = Some tag))"

definition match_selector :: "(string \<times> string) list \<Rightarrow> string \<Rightarrow> bool" where
  "match_selector attrs selector =
     (if selector = [] then True
      else if contains selector ''data-testid='' then
        (case gumbo_get_attribute attrs ''data-testid'' of
           Some v \<Rightarrow> v = quoted_value selector
         | None \<Rightarrow> False)
      else if contains selector ''class='' \<or> contains selector ''css-'' then
        (let class_value =
           (if contains selector (''class='' @ [dquote]) then quoted_value selector else selector)
         in case gumbo_get_attribute attrs ''class'' of
              Some v \<Rightarrow> contains v class_value
            | None \<Rightarrow> False)
      else
        (case gumbo_get_attribute attrs ''class'' of
           Some v \<Rightarrow> contains v selector
         | None \<Rightarrow> False)
        \<or> list_ex (\<lambda>(n, v). contains v selector) attrs)"

text \<open>
  A \<open>GumboNode *\<close> is the position of the node under the node the search started from
  (the child indices on the way down), together with the node found there.
  \<open>find_nodes\<close> appends to the vector \<open>out\<close> and returns it; its first argument is the
  position of \<open>node\<close>.
\<close>

type_synonym node_ptr = "nat list \<times> GumboNode"

fun find_nodes :: "nat list \<Rightarrow> GumboNode \<Rightarrow> string \<Rightarrow> string \<Rightarrow> node_ptr list \<Rightarrow> node_ptr list"
and find_nodes_children ::
  "nat list \<Rightarrow> nat \<Rightarrow> GumboNode list \<Rightarrow> string \<Rightarrow> string \<Rightarrow> node_ptr list \<Rightarrow> node_ptr list"
where
  "find_nodes p (Element etag attrs children) tag selector out =
     find_nodes_children p 0 children tag selector
       (if match_tag etag tag \<and> match_selector attrs selector
        then out @ [(p, Element etag attrs children)] else out)"
| "find_nodes p (Document children) tag selector out = out"
| "find_nodes p (Template etag attrs children) tag selector out = out"
| "find_nodes p (Text t) tag selector out = out"
| "find_nodes p (Cdata t) tag selector out = out"
| "find_nodes p (Comment t) tag selector out = out"
| "find_nodes p (Whitespace t) tag selector out = out"
| "find_nodes_children p i [] tag selector out = out"
| "find_nodes_children p i (c # cs) tag selector out =
     find_nodes_children p (Suc i) cs tag selector (find_nodes (p @ [i]) c tag selector out)"

text \<open>
  Notions used to state the properties of the search: the children of a node, the node at
  a position, the positions of all nodes in pre-order (document order), the document
  order on positions, a matching element, and a position reached through elements only.
\<close>

fun children_of :: "GumboNode \<Rightarrow> GumboNode list" where
  "children_of (Document cs) = cs"
| "children_of (Element etag attrs cs) = cs"
| "children_of (Template etag attrs cs) = cs"
| "children_of _ = []"

fun node_at :: "GumboNode \<Rightarrow> nat list \<Rightarrow> GumboNode option" where
  "node_at n [] = Some n"
| "node_at n (i # q) =
     (if i < length (children_of n) then node_at (children_of n ! i) q else None)"

fun preorder :: "nat list \<Rightarrow> GumboNode \<Rightarrow> nat list list"
and preorder_children :: "nat list \<Rightarrow> nat \<Rightarrow> GumboNode list \<Rightarrow> nat list list" where
  "preorder p (Document cs) = p # preorder_children p 0 cs"
| "preorder p (Element etag attrs cs) = p # preorder_children p 0 cs"
| "preorder p (Template etag attrs cs) = p # preorder_children p 0 cs"
| "preorder p (Text t) = [p]"
| "preorder p (Cdata t) = [p]"
| "preorder p (Comment t) = [p]"
| "preorder p (Whitespace t) = [p]"
| "preorder_children p i [] = []"
| "preorder_children p i (c # cs) = preorder (p @ [i]) c @ preorder_children p (Suc i) cs"

fun doc_before :: "nat list \<Rightarrow> nat list \<Rightarrow> bool" where
  "doc_before [] (j # q) = True"
| "doc_before p [] = False"
| "doc_before (i # p) (j # q) = (i < j \<or> (i = j \<and> doc_before p q))"

fun is_match :: "GumboNode \<Rightarrow> string \<Rightarrow> string \<Rightarrow> bool" where
  "is_match (Element etag attrs cs) tag selector =
     (match_tag etag tag \<and> match_selector attrs selector)"
| "is_match _ tag selector = False"

fun searched :: "GumboNode \<Rightarrow> nat list \<Rightarrow> bool" where
  "searched n [] = True"
| "searched (Element etag attrs cs) (i # q) = (i < length cs \<and> searched (cs ! i) q)"
| "searched _ (i # q) = False"

text \<open>
  The container
  \<open><div class="job"><h2 class="title"><a href="/jobs/42">Engineer</a></h2>
  <span class="company">Acme</span></div>\<close>.
\<close>

definition job_card :: GumboNode where
  "job_card =
     Element (Some ''div'') [(''class'', ''job'')]
       [Element (Some ''h2'') [(''class'', ''title'')]
          [Element (Some ''a'') [(''href'', ''/jobs/42'')] [Text ''Engineer'']],
        Element (Some ''span'') [(''class'', ''company'')] [Text ''Acme'']]"

text \<open>
  Auxiliary: the element \<open>m\<close> matches and lies at position \<open>r\<close> under \<open>n\<close>, on a path the
  search follows.
\<close>

definition hit :: "GumboNode \<Rightarrow> string \<Rightarrow> string \<Rightarrow> nat list \<Rightarrow> GumboNode \<Rightarrow> bool" where
  "hit n t s r m = (searched n r \<and> node_at n r = Some m \<and> is_match m t s)"

section \<open>URL normalizer\<close>

text \<open>
  \<open>hay.rfind(needle, pos)\<close>: the last index \<open>i \<le> pos\<close> at which \<open>needle\<close> occurs.
\<close>

fun str_rfind_aux :: "string \<Rightarrow> string \<Rightarrow> nat \<Rightarrow> nat option" where
  "str_rfind_aux hay needle 0 = (if prefix needle hay then Some 0 else None)"
| "str_rfind_aux hay needle (Suc i) =
     (if prefix needle (drop (Suc i) hay) then Some (Suc i) else str_rfind_aux hay needle i)"

definition str_rfind :: "string \<Rightarrow> string \<Rightarrow> nat \<Rightarrow> nat option" where
  "str_rfind hay needle pos =
     (if length needle > length hay then None
      else str_rfind_aux hay needle (min pos (length hay - length needle)))"

text \<open>\<open>s.find_last_of(c)\<close>: the index of the last \<open>c\<close> in \<open>s\<close>.\<close>

fun find_last_of_aux :: "string \<Rightarrow> char \<Rightarrow> nat \<Rightarrow> nat option \<Rightarrow> nat option" where
  "find_last_of_aux [] c i found = found"
| "find_last_of_aux (x # xs) c i found =
     find_last_of_aux xs c (Suc i) (if x = c then Some i else found)"

definition find_last_of :: "string \<Rightarrow> char \<Rightarrow> nat option" where
  "find_last_of s c = find_last_of_aux s c 0 None"

text \<open>
  The last branch of \<open>normalize_url\<close>, when the base is not cut after its last slash:
  \<open>else if (base.back() != '/') base += '/'\<close>, then \<open>return base + url\<close>.
  \<open>back()\<close> of an empty string is undefined behaviour: \<open>None\<close>.
\<close>

definition append_to_base :: "string \<Rightarrow> string \<Rightarrow> string option" where
  "append_to_base base url =
     (if base = [] then None
      else if last base \<noteq> CHR ''/'' then Some ((base @ ''/'') @ url)
      else Some (base @ url))"

text \<open>
  \<open>normalize_url(url, base_url)\<close>.  \<open>url.rfind("http", 0) == 0\<close> tests whether \<open>url\<close>
  begins with \<open>http\<close>; \<open>substr(0, n)\<close> is \<open>take n\<close>.
\<close>

definition normalize_url :: "string \<Rightarrow> string \<Rightarrow> string option" where
  "normalize_url url base_url =
     (if url = [] then Some ''''
      else if str_rfind url ''http'' 0 = Some 0 then Some url
      else if hd url = CHR ''/'' then
        (case str_find base_url ''://'' 0 of
           None \<Rightarrow> Some (base_url @ url)
         | Some protocol_end \<Rightarrow>
             (case str_find base_url ''/'' (protocol_end + 3) of
                None \<Rightarrow> Some (base_url @ url)
              | Some domain_end \<Rightarrow> Some (take domain_end base_url @ url)))
      else
        (case find_last_of base_url CHR ''/'' of
           None \<Rightarrow> append_to_base base_url url
         | Some last_slash \<Rightarrow>
             if last_slash > 8 then Some (take (last_slash + 1) base_url @ url)
             else append_to_base base_url url))"

section \<open>Text and attribute extraction\<close>

text \<open>
  \<open>extract_text\<close>: the text of a text node; for an element, the texts of its children
  joined by single spaces, empty ones skipped (the loop over the children carries the
  string \<open>s\<close>); empty for every other node type.
\<close>

fun extract_text :: "GumboNode \<Rightarrow> string"
and extract_text_children :: "GumboNode list \<Rightarrow> string \<Rightarrow> string" where
  "extract_text (Text t) = t"
| "extract_text (Element etag attrs children) = extract_text_children children ''''"
| "extract_text (Document children) = ''''"
| "extract_text (Template etag attrs children) = ''''"
| "extract_text (Cdata t) = ''''"
| "extract_text (Comment t) = ''''"
| "extract_text (Whitespace t) = ''''"
| "extract_text_children [] s = s"
| "extract_text_children (c # cs) s =
     (let t = extract_text c in
      extract_text_children cs
        (if t \<noteq> [] then (if s \<noteq> [] then s @ '' '' else s) @ t else s))"

text \<open>\<open>extract_attr\<close>: the value of the attribute, or the empty string.\<close>

fun extract_attr :: "GumboNode \<Rightarrow> string \<Rightarrow> string" where
  "extract_attr (Element etag attrs children) name =
     (case gumbo_get_attribute attrs name of Some v \<Rightarrow> v | None \<Rightarrow> '''')"
| "extract_attr _ name = ''''"

section \<open>Configuration\<close>

text \<open>
  \<open>delay\<close> is a number of seconds.  The field \<open>keywords\<close> of \<open>SearchConfig\<close> is written
  \<open>keywords'\<close>.
\<close>

record SiteConfig =
  name :: string
  base_url :: string
  search_url_template :: string
  container_tag :: string
  container_class :: string
  title_tag :: string
  title_class :: string
  company_tag :: string
  company_class :: string
  location_tag :: string
  location_class :: string
  description_tag :: string
  description_class :: string
  url_tag :: string
  url_class :: string
  date_tag :: string
  date_class :: string
  skills_tag :: string
  skills_class :: string
  pagination_param :: string
  max_pages :: int
  delay :: int
  requires_js :: bool

record SearchConfig =
  job_title :: string
  location :: string
  keywords' :: "string list"
  target_site :: string

section \<open>Field extractor\<close>

text \<open>
  \<open>extract_url\<close>: the \<open>href\<close> of the node itself, else of the first anchor found in it,
  normalized against the base; the empty string when there is none.  \<open>None\<close> is the
  undefined behaviour of \<open>normalize_url\<close> on an empty base.
\<close>

definition extract_url :: "GumboNode \<Rightarrow> string \<Rightarrow> string option" where
  "extract_url node base =
     (let href = extract_attr node ''href'' in
      if href \<noteq> [] then normalize_url href base
      else
        (let anchors = find_nodes [] node ''a'' '''' [] in
         if anchors \<noteq> [] then
           (let href = extract_attr (snd (hd anchors)) ''href'' in
            if href \<noteq> [] then normalize_url href base else Some '''')
         else Some ''''))"

text \<open>
  \<open>clean_text\<close>: the loop over the characters carries \<open>result\<close> and the flag \<open>space\<close>;
  a trailing space is removed afterwards.
\<close>

fun clean_text_loop :: "string \<Rightarrow> string \<Rightarrow> bool \<Rightarrow> string" where
  "clean_text_loop [] result space = result"
| "clean_text_loop (c # cs) result space =
     (if isspace c then
        (if \<not> space \<and> result \<noteq> [] then clean_text_loop cs (result @ '' '') True
         else clean_text_loop cs result space)
      else clean_text_loop cs (result @ [c]) False)"

definition clean_text :: "string \<Rightarrow> string" where
  "clean_text text =
     (let result = clean_text_loop text '''' False in
      if result \<noteq> [] \<and> last result = CHR '' '' then butlast result else result)"

text \<open>
  The tokenization of the skills text.  \<open>getline_all\<close> is the sequence of strings the
  successive calls \<open>std::getline(iss, skill, ',')\<close> of the loop condition produce: a call
  at the end of the stream extracts nothing and ends the loop.  \<open>regex_trim\<close> is the
  \<open>std::regex_replace\<close> that deletes the whitespace at the start and at the end of the
  token, and \<open>skills_loop\<close> the body of the loop, with the vector \<open>skills\<close>.
\<close>

fun getline_all :: "string \<Rightarrow> string \<Rightarrow> string list" where
  "getline_all [] cur = (if cur = [] then [] else [cur])"
| "getline_all (c # cs) cur =
     (if c = CHR '','' then cur # getline_all cs [] else getline_all cs (cur @ [c]))"

definition regex_trim :: "string \<Rightarrow> string" where
  "regex_trim s = rev (dropWhile isspace (rev (dropWhile isspace s)))"

fun skills_loop :: "string list \<Rightarrow> string list \<Rightarrow> string list" where
  "skills_loop [] skills = skills"
| "skills_loop (skill # rest) skills =
     (if skill \<noteq> [] then
        (let skill = regex_trim skill in
         if skill \<noteq> [] then skills_loop rest (skills @ [skill]) else skills_loop rest skills)
      else skills_loop rest skills)"

text \<open>
  The blocks of \<open>scrape_details\<close>, in the order of the source; \<open>j\<close> is the list of members
  of the JSON object under construction, and \<open>nodes[0]\<close> is \<open>hd nodes\<close>.
\<close>

definition extract_title :: "GumboNode \<Rightarrow> SiteConfig \<Rightarrow> (string \<times> json) list \<Rightarrow> (string \<times> json) list" where
  "extract_title n cfg j =
     (if title_tag cfg \<noteq> [] then
        (let nodes = find_nodes [] n (title_tag cfg) (title_class cfg) [] in
         if nodes \<noteq> [] then obj_set ''title'' (JString (clean_text (extract_text (snd (hd nodes))))) j
         else j)
      else j)"

definition extract_location ::
  "GumboNode \<Rightarrow> SiteConfig \<Rightarrow> SearchConfig \<Rightarrow> (string \<times> json) list \<Rightarrow> (string \<times> json) list" where
  "extract_location n cfg search_cfg j =
     (if location_tag cfg \<noteq> [] then
        (let nodes = find_nodes [] n (location_tag cfg) (location_class cfg) [] in
         if nodes \<noteq> [] then
           obj_set ''location'' (JString (clean_text (extract_text (snd (hd nodes))))) j
         else obj_set ''location'' (JString (location search_cfg)) j)
      else obj_set ''location'' (JString (location search_cfg)) j)"

definition extract_company :: "GumboNode \<Rightarrow> SiteConfig \<Rightarrow> (string \<times> json) list \<Rightarrow> (string \<times> json) list" where
  "extract_company n cfg j =
     (if company_tag cfg \<noteq> [] then
        (let nodes = find_nodes [] n (company_tag cfg) (company_class cfg) [] in
         if nodes \<noteq> [] then obj_set ''company'' (JString (clean_text (extract_text (snd (hd nodes))))) j
         else j)
      else j)"

definition extract_description ::
  "GumboNode \<Rightarrow> SiteConfig \<Rightarrow> (string \<times> json) list \<Rightarrow> (string \<times> json) list" where
  "extract_description n cfg j =
     (if description_tag cfg \<noteq> [] then
        (let nodes = find_nodes [] n (description_tag cfg) (description_class cfg) [] in
         if nodes \<noteq> [] then
           obj_set ''description'' (JString (clean_text (extract_text (snd (hd nodes))))) j
         else j)
      else j)"

definition extract_job_url :: "GumboNode \<Rightarrow> SiteConfig \<Rightarrow> string option" where
  "extract_job_url n cfg =
     (if url_tag cfg \<noteq> [] then
        (let nodes = find_nodes [] n (url_tag cfg) (url_class cfg) [] in
         if nodes \<noteq> [] then
           (case extract_url (snd (hd nodes)) (base_url cfg) of
              None \<Rightarrow> None
            | Some job_url \<Rightarrow>
                if job_url = [] then
                  (let job_url = extract_attr (snd (hd nodes)) ''href'' in
                   if job_url \<noteq> [] then normalize_url job_url (base_url cfg) else Some job_url)
                else Some job_url)
         else Some '''')
      else extract_url n (base_url cfg))"

definition extract_skills :: "GumboNode \<Rightarrow> SiteConfig \<Rightarrow> string list" where
  "extract_skills n cfg =
     (if skills_tag cfg \<noteq> [] then
        (let nodes = find_nodes [] n (skills_tag cfg) (skills_class cfg) [] in
         if nodes \<noteq> [] then
           (let skills_text = clean_text (extract_text (snd (hd nodes))) in
            skills_loop (getline_all skills_text '''') [])
         else [])
      else [])"

text \<open>
  The keyword filter: some keyword occurs, lower-cased, in the lower-cased description or
  title.
\<close>

definition keyword_match :: "SearchConfig \<Rightarrow> string \<Rightarrow> string \<Rightarrow> bool" where
  "keyword_match search_cfg description title =
     list_ex (\<lambda>keyword.
        contains (lowercase description) (lowercase keyword)
        \<or> contains (lowercase title) (lowercase keyword)) (keywords' search_cfg)"

text \<open>
  \<open>scrape_details(n, cfg, search_cfg)\<close>; the fourth argument is the value of \<open>now_iso()\<close>.
  The result is the JSON value returned: the object built, or \<open>json()\<close> (null) when the
  keyword filter rejects the record.
\<close>

definition scrape_details :: "GumboNode \<Rightarrow> SiteConfig \<Rightarrow> SearchConfig \<Rightarrow> string \<Rightarrow> json option" where
  "scrape_details n cfg search_cfg now_iso =
     (let j = obj_set ''source'' (JString (name cfg)) [];
          j = obj_set ''scraped_at'' (JString now_iso) j;
          j = extract_title n cfg j;
          j = extract_location n cfg search_cfg j;
          j = extract_company n cfg j;
          j = extract_description n cfg j
      in case extract_job_url n cfg of
           None \<Rightarrow> None
         | Some job_url \<Rightarrow>
            (let j = (if job_url \<noteq> [] then obj_set ''source'' (JString job_url) j else j);
                 skills = extract_skills n cfg;
                 j = obj_set ''skills'' (JArray []) j;
                 j = (if skills \<noteq> [] then obj_set ''skills'' (JArray (map JString skills)) j
                      else obj_set ''skills'' (JArray []) j)
             in if keywords' search_cfg \<noteq> [] then
                  (case json_value (JObject j) ''description'' '''' of
                     None \<Rightarrow> None
                   | Some description \<Rightarrow>
                       (case json_value (JObject j) ''title'' '''' of
                          None \<Rightarrow> None
                        | Some title \<Rightarrow>
                            if \<not> keyword_match search_cfg description title then Some JNull
                            else Some (JObject j)))
                else Some (JObject j)))"

section \<open>Crawl controller\<close>

text \<open>\<open>static_cast<size_t>(i)\<close> on a 64-bit platform.\<close>

definition size_t_of_int :: "int \<Rightarrow> nat" where
  "size_t_of_int i = nat (i mod 2 ^ 64)"

text \<open>
  The loop of \<open>main\<close> over the containers of one page: \<open>scrape_details\<close> on each container,
  the job appended to \<open>all_jobs\<close> when it is not empty, and the loop left once
  \<open>max_jobs\<close> is reached.  \<open>clock i\<close> is the value of the \<open>i\<close>-th call of \<open>now_iso()\<close>.
\<close>

fun scrape_containers ::
  "GumboNode list \<Rightarrow> SiteConfig \<Rightarrow> SearchConfig \<Rightarrow> (nat \<Rightarrow> string) \<Rightarrow> nat \<Rightarrow> int \<Rightarrow> json list
   \<Rightarrow> json list option" where
  "scrape_containers [] site search_cfg clock i max_jobs all_jobs = Some all_jobs"
| "scrape_containers (container # containers) site search_cfg clock i max_jobs all_jobs =
     (case scrape_details container site search_cfg (clock i) of
        None \<Rightarrow> None
      | Some job \<Rightarrow>
          if \<not> json_empty job then
            (let all_jobs = all_jobs @ [job] in
             if length all_jobs \<ge> size_t_of_int max_jobs then Some all_jobs
             else scrape_containers containers site search_cfg clock (Suc i) max_jobs all_jobs)
          else scrape_containers containers site search_cfg clock (Suc i) max_jobs all_jobs)"

text \<open>Example configurations and containers.\<close>

definition example_site :: SiteConfig where
  "example_site = \<lparr> name = ''Example'', base_url = ''https://jobs.example.com'',
     search_url_template = ''https://jobs.example.com/search?q={job_title}&l={location}'',
     container_tag = ''div'', container_class = ''job'',
     title_tag = ''h2'', title_class = ''title'',
     company_tag = ''span'', company_class = ''company'',
     location_tag = '''', location_class = '''',
     description_tag = ''p'', description_class = ''desc'',
     url_tag = '''', url_class = '''',
     date_tag = '''', date_class = '''',
     skills_tag = '''', skills_class = '''',
     pagination_param = ''page'', max_pages = 2, delay = 2, requires_js = False \<rparr>"

definition example_search :: SearchConfig where
  "example_search = \<lparr> job_title = ''Software Developer'', location = ''Remote'',
     keywords' = [], target_site = '''' \<rparr>"

definition untitled_card :: GumboNode where
  "untitled_card =
     Element (Some ''div'') [(''class'', ''job'')]
       [Element (Some ''span'') [(''class'', ''company'')] [Text ''Acme''],
        Element (Some ''p'') [(''class'', ''desc'')] [Text ''We need  a Python developer '']]"

text \<open>
  Auxiliary: the members of the object \<open>scrape_details\<close> has built when it reaches the
  keyword filter, as a function of the job URL found.
\<close>

definition record_fields ::
  "GumboNode \<Rightarrow> SiteConfig \<Rightarrow> SearchConfig \<Rightarrow> string \<Rightarrow> string \<Rightarrow> (string \<times> json) list" where
  "record_fields n cfg search_cfg now_iso job_url =
     (let j = obj_set ''source'' (JString (name cfg)) [];
          j = obj_set ''scraped_at'' (JString now_iso) j;
          j = extract_title n cfg j;
          j = extract_location n cfg search_cfg j;
          j = extract_company n cfg j;
          j = extract_description n cfg j;
          j = (if job_url \<noteq> [] then obj_set ''source'' (JString job_url) j else j);
          j = obj_set ''skills'' (JArray []) j
      in if extract_skills n cfg \<noteq> []
         then obj_set ''skills'' (JArray (map JString (extract_skills n cfg))) j
         else obj_set ''skills'' (JArray []) j)"

text \<open>
  The specification's words, for comparison with the code: a text split at every comma,
  and the skills a keyword vocabulary finds in a description (case-insensitive substring
  match, collected in a set).
\<close>

fun split_commas :: "string \<Rightarrow> string list" where
  "split_commas [] = [[]]"
| "split_commas (c # cs) =
     (if c = CHR '','' then [] # split_commas cs
      else (case split_commas cs of t # ts \<Rightarrow> (c # t) # ts | [] \<Rightarrow> [[c]]))"

definition spec_keyword_skills :: "string list \<Rightarrow> string \<Rightarrow> string set" where
  "spec_keyword_skills vocabulary description =
     set (filter (\<lambda>skill. contains (lowercase description) (lowercase skill)) vocabulary)"


definition python_search :: SearchConfig where
  "python_search = \<lparr> job_title = ''Software Developer'', location = ''Remote'',
     keywords' = [''python''], target_site = '''' \<rparr>"

definition untitled_record :: json where
  "untitled_record = JObject
    [(''source'', JString ''Example''),
     (''scraped_at'', JString ''2025-01-01 10:00:00''),
     (''location'', JString ''Remote''), (''company'', JString ''Acme''),
     (''description'', JString ''We need a Python developer''),
     (''skills'', JArray [])]"

definition engineer_record :: json where
  "engineer_record = JObject
    [(''source'', JString ''https://jobs.example.com/jobs/42''),
     (''scraped_at'', JString ''2025-01-01 10:00:00''),
     (''title'', JString ''Engineer''), (''location'', JString ''Remote''),
     (''company'', JString ''Acme''), (''skills'', JArray [])]"

definition skills_site :: SiteConfig where
  "skills_site = example_site \<lparr> skills_tag := ''ul'', skills_class := ''skills'' \<rparr>"

definition skills_card :: GumboNode where
  "skills_card =
     Element (Some ''div'') [(''class'', ''job'')]
       [Element (Some ''h2'') [(''class'', ''title'')] [Text ''Engineer''],
        Element (Some ''ul'') [(''class'', ''skills'')] [Text '' Python,  C++ ,, SQL ,'']]"

section \<open>Rate limiter and fetcher\<close>

text \<open>
  The state kept per site.  The field \<open>delay\<close> is written \<open>delay'\<close>.  Durations are whole
  seconds (\<open>std::chrono::seconds\<close>, an integer count); points in time are ticks of the system
  clock, in nanoseconds.
\<close>

record RateLimitInfo =
  delay' :: int
  consecutive_successes :: int
  consecutive_failures :: int
  last_request :: int
  backoff_mode :: bool

definition default_RateLimitInfo :: RateLimitInfo where
  "default_RateLimitInfo =
     \<lparr> delay' = 5, consecutive_successes = 0, consecutive_failures = 0, last_request = 0,
       backoff_mode = False \<rparr>"

text \<open>
  The global map \<open>rate_limits\<close>, passed and returned explicitly.  \<open>rate_limits[site_name]\<close>
  reads the entry, a default-constructed one when the key is absent.
\<close>

type_synonym rate_limits = "string \<rightharpoonup> RateLimitInfo"

definition rate_limits_at :: "rate_limits \<Rightarrow> string \<Rightarrow> RateLimitInfo" where
  "rate_limits_at rate_limits site_name =
     (case rate_limits site_name of None \<Rightarrow> default_RateLimitInfo | Some info \<Rightarrow> info)"

text \<open>\<open>std::chrono::duration_cast<std::chrono::seconds>\<close>: truncation toward zero.\<close>

definition duration_cast_seconds :: "int \<Rightarrow> int" where
  "duration_cast_seconds ns =
     (if 0 \<le> ns then ns div 1000000000 else - ((- ns) div 1000000000))"

text \<open>
  \<open>required_delay *= 1.2\<close> calls \<open>duration::operator*=(const rep&)\<close>, where \<open>rep\<close> is the
  integer type of the count: the factor, the decimal \<open>num/den\<close>, is first converted to \<open>rep\<close>,
  which truncates it toward zero.
\<close>

definition double_to_rep :: "int \<Rightarrow> int \<Rightarrow> int" where
  "double_to_rep num den = (if 0 \<le> num then num div den else - ((- num) div den))"

text \<open>The delay chosen by site name, before backoff and jitter.\<close>

definition base_delay :: "string \<Rightarrow> int" where
  "base_delay site_name =
     (if site_name = ''LinkedIn'' then 30
      else if site_name = ''Indeed'' then 15
      else if site_name = ''Dice'' \<or> site_name = ''SimplyHired'' then 3
      else 5)"

text \<open>
  \<open>enforce_rate_limits(site_name)\<close>.  \<open>now\<close> and \<open>now_after\<close> are the two readings of the clock,
  \<open>rnd\<close> is the value of \<open>std::rand()\<close>.  The result is \<open>required_delay\<close>, the time slept, and
  the new map.
\<close>

definition enforce_rate_limits ::
  "string \<Rightarrow> int \<Rightarrow> nat \<Rightarrow> int \<Rightarrow> rate_limits \<Rightarrow> int \<times> int \<times> rate_limits" where
  "enforce_rate_limits site_name now rnd now_after rate_limits =
     (let rate_limits =
            (if rate_limits site_name = None
             then rate_limits(site_name \<mapsto>
                    default_RateLimitInfo \<lparr> delay' := 5, last_request := now - 3600 * 1000000000 \<rparr>)
             else rate_limits);
          info = rate_limits_at rate_limits site_name;
          elapsed = duration_cast_seconds (now - last_request info);
          required_delay = base_delay site_name;
          required_delay =
            (if backoff_mode info then required_delay * double_to_rep 12 10
             else required_delay);
          required_delay = required_delay + int (rnd mod 5);
          wait_time = (if elapsed < required_delay then required_delay - elapsed else 0)
      in (required_delay, wait_time,
          rate_limits(site_name \<mapsto> info \<lparr> last_request := now_after \<rparr>)))"

text \<open>
  The result codes of \<open>curl_easy_perform\<close> that \<open>fetch_page\<close> distinguishes, and the two
  exceptions it throws.
\<close>

datatype CURLcode = CURLE_OK | CURLE_BAD_CONTENT_ENCODING | CURLE_OTHER nat

datatype ScraperException = Failed_to_initialize_CURL | CURL_error_after_retries CURLcode

text \<open>The updates of the rate limit state after a 2xx response and after another one.\<close>

definition record_success :: "RateLimitInfo \<Rightarrow> RateLimitInfo" where
  "record_success info =
     (let info = info \<lparr> consecutive_successes := consecutive_successes info + 1 \<rparr>;
          info = info \<lparr> consecutive_failures := 0 \<rparr>
      in if backoff_mode info \<and> consecutive_successes info > 3
         then info \<lparr> backoff_mode := False \<rparr> else info)"

definition record_failure :: "int \<Rightarrow> RateLimitInfo \<Rightarrow> RateLimitInfo" where
  "record_failure http_code info =
     (let info = info \<lparr> consecutive_failures := consecutive_failures info + 1 \<rparr>;
          info = info \<lparr> consecutive_successes := 0 \<rparr>
      in if (http_code = 429 \<or> http_code = 403 \<or> http_code = 999) \<and> \<not> backoff_mode info
         then info \<lparr> backoff_mode := True, delay' := delay' info * 2 \<rparr> else info)"

text \<open>
  The retry loop of \<open>fetch_page\<close>.  \<open>perform i\<close> is what attempt \<open>i\<close> yields: the result code
  of \<open>curl_easy_perform\<close>, the HTTP response code and the bytes written to the buffer.  The
  state of the loop is \<open>i\<close>, the number of iterations left, \<open>res\<close>, \<open>buffer\<close> and the rate limit
  map; a 2xx response leaves the loop.  The sleeps and the rotation of the user agent
  change none of these and are left out.
\<close>

fun fetch_attempts ::
  "(nat \<Rightarrow> CURLcode \<times> int \<times> string) \<Rightarrow> string \<Rightarrow> nat \<Rightarrow> nat \<Rightarrow> CURLcode \<Rightarrow> string
   \<Rightarrow> rate_limits \<Rightarrow> CURLcode \<times> string \<times> rate_limits" where
  "fetch_attempts perform site_name i 0 res buffer rate_limits = (res, buffer, rate_limits)"
| "fetch_attempts perform site_name i (Suc n) res buffer rate_limits =
     (case perform i of (res, http_code, buffer) \<Rightarrow>
        if res = CURLE_OK then
          if 200 \<le> http_code \<and> http_code < 300 then
            (res, buffer,
             if site_name \<noteq> []
             then rate_limits(site_name \<mapsto> record_success (rate_limits_at rate_limits site_name))
             else rate_limits)
          else
            fetch_attempts perform site_name (Suc i) n res buffer
              (if site_name \<noteq> []
               then rate_limits(site_name \<mapsto>
                      record_failure http_code (rate_limits_at rate_limits site_name))
               else rate_limits)
        else fetch_attempts perform site_name (Suc i) n res buffer rate_limits)"

text \<open>
  \<open>fetch_page(url, retries, site_name)\<close>: the rate limiter first, when a site name is
  given; \<open>curl_init_ok\<close> tells whether \<open>curl_easy_init\<close> returned a handle; after the loop an
  exception is thrown when \<open>res != CURLE_OK\<close>, and the buffer is returned otherwise.
\<close>

definition fetch_page ::
  "bool \<Rightarrow> (nat \<Rightarrow> CURLcode \<times> int \<times> string) \<Rightarrow> int \<Rightarrow> nat \<Rightarrow> int
   \<Rightarrow> string \<Rightarrow> int \<Rightarrow> string \<Rightarrow> rate_limits \<Rightarrow> (ScraperException + string) \<times> rate_limits" where
  "fetch_page curl_init_ok perform now rnd now_after url retries site_name rate_limits =
     (let rate_limits =
            (if site_name \<noteq> []
             then snd (snd (enforce_rate_limits site_name now rnd now_after rate_limits))
             else rate_limits)
      in if \<not> curl_init_ok then (Inl Failed_to_initialize_CURL, rate_limits)
         else
           (case fetch_attempts perform site_name 0 (nat retries) CURLE_OK '''' rate_limits of
              (res, buffer, rate_limits) \<Rightarrow>
                if res \<noteq> CURLE_OK then (Inl (CURL_error_after_retries res), rate_limits)
                else (Inr buffer, rate_limits)))"

text \<open>Example transfers and states.\<close>

definition always_404 :: "nat \<Rightarrow> CURLcode \<times> int \<times> string" where
  "always_404 i = (CURLE_OK, 404, ''<h1>Not Found</h1>'')"

definition linkedin_in_backoff :: rate_limits where
  "linkedin_in_backoff =
     Map.empty(''LinkedIn'' \<mapsto>
       \<lparr> delay' = 10, consecutive_successes = 0, consecutive_failures = 1, last_request = 0,
         backoff_mode = True \<rparr>)"

definition throttled_twice_then_ok :: "nat \<Rightarrow> CURLcode \<times> int \<times> string" where
  "throttled_twice_then_ok i =
     (if i < 2 then (CURLE_OK, 429, ''Too Many Requests'') else (CURLE_OK, 200, ''<html>jobs</html>''))"

section \<open>Properties of the deduplicator\<close>

lemma deduplicate_loop_survivors:
  "\<forall>r\<in>set jobs. fingerprint r \<noteq> None \<Longrightarrow>
   deduplicate_loop jobs u seen = Some (u @ survivors jobs seen)"
  by (induction jobs arbitrary: u seen) (auto split: option.splits)



lemma survivors_fresh:
  "r \<in> set (survivors jobs seen) \<Longrightarrow> \<exists>fp. fingerprint r = Some fp \<and> fp \<notin> seen"
  by (induction jobs arbitrary: seen) (auto split: option.splits if_splits)

lemma survivors_distinct: "distinct (map fingerprint (survivors jobs seen))"
proof (induction jobs arbitrary: seen)
  case Nil
  show ?case by simp
next
  case (Cons job jobs)
  show ?case
  proof (cases "fingerprint job")
    case None
    then show ?thesis using Cons.IH by simp
  next
    case (Some fp)
    show ?thesis
    proof (cases "fp \<in> seen")
      case True
      then show ?thesis using Some Cons.IH by simp
    next
      case False
      have "Some fp \<notin> fingerprint ` set (survivors jobs (insert fp seen))"
        using survivors_fresh by force
      then show ?thesis using Some False Cons.IH by simp
    qed
  qed
qed






lemma deduplicate_jobs_survivors:
  "\<forall>r\<in>set R. fingerprint r \<noteq> None \<Longrightarrow> deduplicate_jobs R = Some (survivors R {})"
  using deduplicate_loop_survivors [of R "[]" "{}"] by (simp add: deduplicate_jobs_def)






















section \<open>Properties of the selector engine\<close>

lemma find_nodes_children_acc:
  assumes "\<And>c p out. c \<in> set cs \<Longrightarrow> find_nodes p c t s out = out @ find_nodes p c t s []"
  shows "find_nodes_children p i cs t s out = out @ find_nodes_children p i cs t s []"
  using assms
proof (induction cs arbitrary: i out)
  case Nil
  show ?case by simp
next
  case (Cons c cs)
  have c: "\<And>q out. find_nodes q c t s out = out @ find_nodes q c t s []"
    by (rule Cons.prems) simp
  have r: "\<And>i out. find_nodes_children p i cs t s out = out @ find_nodes_children p i cs t s []"
    by (rule Cons.IH) (rule Cons.prems, simp)
  have "find_nodes_children p i (c # cs) t s out
      = find_nodes (p @ [i]) c t s out @ find_nodes_children p (Suc i) cs t s []"
    using r [of "Suc i" "find_nodes (p @ [i]) c t s out"] by simp
  also have "\<dots> = out @ find_nodes (p @ [i]) c t s [] @ find_nodes_children p (Suc i) cs t s []"
    using c [of "p @ [i]" out] by simp
  also have "find_nodes (p @ [i]) c t s [] @ find_nodes_children p (Suc i) cs t s []
      = find_nodes_children p i (c # cs) t s []"
    using r [of "Suc i" "find_nodes (p @ [i]) c t s []"] by simp
  finally show ?case .
qed

lemma find_nodes_acc: "find_nodes p n t s out = out @ find_nodes p n t s []"
proof (induction n arbitrary: p out)
  case (Element etag attrs cs)
  have r: "\<And>i out. find_nodes_children p i cs t s out = out @ find_nodes_children p i cs t s []"
    by (rule find_nodes_children_acc) (rule Element.IH)
  show ?case
    using r [of 0 "out @ [(p, Element etag attrs cs)]"] r [of 0 "[(p, Element etag attrs cs)]"]
      r [of 0 out]
    by simp
qed simp_all

lemma find_nodes_children_acc': 
  "find_nodes_children p i cs t s out = out @ find_nodes_children p i cs t s []"
  by (rule find_nodes_children_acc) (rule find_nodes_acc)

lemma find_nodes_Element:
  "find_nodes p (Element etag attrs cs) t s [] =
     (if match_tag etag t \<and> match_selector attrs s then [(p, Element etag attrs cs)] else [])
     @ find_nodes_children p 0 cs t s []"
  using find_nodes_children_acc' [of p 0 cs t s "[(p, Element etag attrs cs)]"] by simp

lemma find_nodes_children_Cons:
  "find_nodes_children p i (c # cs) t s [] =
     find_nodes (p @ [i]) c t s [] @ find_nodes_children p (Suc i) cs t s []"
  using find_nodes_children_acc' [of p "Suc i" cs t s "find_nodes (p @ [i]) c t s []"] by simp

lemma find_nodes_children_member:
  assumes "\<And>c p q m. c \<in> set cs \<Longrightarrow>
     ((q, m) \<in> set (find_nodes p c t s [])) = (\<exists>r. q = p @ r \<and> hit c t s r m)"
  shows "((q, m) \<in> set (find_nodes_children p i cs t s [])) =
     (\<exists>k r. k < length cs \<and> q = p @ (i + k) # r \<and> hit (cs ! k) t s r m)"
  using assms
proof (induction cs arbitrary: i)
  case Nil
  show ?case by simp
next
  case (Cons c cs)
  have c: "((q, m) \<in> set (find_nodes (p @ [i]) c t s [])) = (\<exists>r. q = p @ i # r \<and> hit c t s r m)"
    using Cons.prems [of c q m "p @ [i]"] by simp
  have r: "((q, m) \<in> set (find_nodes_children p (Suc i) cs t s [])) =
     (\<exists>k r. k < length cs \<and> q = p @ (Suc i + k) # r \<and> hit (cs ! k) t s r m)"
    using Cons.IH [of "Suc i"] Cons.prems by simp
  have "(\<exists>k r. k < length (c # cs) \<and> q = p @ (i + k) # r \<and> hit ((c # cs) ! k) t s r m)
      = ((\<exists>r. q = p @ i # r \<and> hit c t s r m)
         \<or> (\<exists>k r. k < length cs \<and> q = p @ (Suc i + k) # r \<and> hit (cs ! k) t s r m))"
    (is "?L = (?A \<or> ?B)")
  proof
    assume ?L
    then obtain k r where k: "k < length (c # cs)" "q = p @ (i + k) # r" "hit ((c # cs) ! k) t s r m"
      by blast
    show "?A \<or> ?B"
    proof (cases k)
      case 0
      then have "q = p @ i # r \<and> hit c t s r m" using k by simp
      then show ?thesis by blast
    next
      case (Suc k')
      then have "k' < length cs \<and> q = p @ (Suc i + k') # r \<and> hit (cs ! k') t s r m"
        using k by simp
      then show ?thesis by blast
    qed
  next
    assume "?A \<or> ?B"
    then show ?L
    proof
      assume ?A
      then obtain r where "q = p @ i # r" "hit c t s r m" by blast
      then have "0 < length (c # cs) \<and> q = p @ (i + 0) # r \<and> hit ((c # cs) ! 0) t s r m" by simp
      then show ?L by blast
    next
      assume ?B
      then obtain k r where "k < length cs" "q = p @ (Suc i + k) # r" "hit (cs ! k) t s r m" by blast
      then have "Suc k < length (c # cs) \<and> q = p @ (i + Suc k) # r \<and> hit ((c # cs) ! Suc k) t s r m"
        by simp
      then show ?L by blast
    qed
  qed
  then show ?case unfolding find_nodes_children_Cons set_append Un_iff c r by simp
qed

lemma hit_Nil: "hit n t s [] m = (m = n \<and> is_match n t s)"
  by (auto simp: hit_def)

lemma hit_Cons_Element:
  "hit (Element etag attrs cs) t s (i # r) m = (i < length cs \<and> hit (cs ! i) t s r m)"
  by (auto simp: hit_def)

lemma hit_not_Element: "(\<And>e a cs. n \<noteq> Element e a cs) \<Longrightarrow> \<not> hit n t s r m"
  by (cases n; cases r) (auto simp: hit_def)

lemma find_nodes_member:
  "((q, m) \<in> set (find_nodes p n t s [])) = (\<exists>r. q = p @ r \<and> hit n t s r m)"
proof (induction n arbitrary: p q m)
  case (Element etag attrs cs)
  let ?n = "Element etag attrs cs"
  have ch: "((q, m) \<in> set (find_nodes_children p 0 cs t s [])) =
     (\<exists>k r. k < length cs \<and> q = p @ (0 + k) # r \<and> hit (cs ! k) t s r m)"
    by (rule find_nodes_children_member) (rule Element.IH)
  have "(\<exists>r. q = p @ r \<and> hit ?n t s r m)
      = ((q = p \<and> m = ?n \<and> is_match ?n t s)
         \<or> (\<exists>k r. k < length cs \<and> q = p @ k # r \<and> hit (cs ! k) t s r m))"
    (is "?L = (?A \<or> ?B)")
  proof
    assume ?L
    then obtain r where r: "q = p @ r" "hit ?n t s r m" by blast
    show "?A \<or> ?B"
    proof (cases r)
      case Nil
      then show ?thesis using r by (simp add: hit_Nil)
    next
      case (Cons k r')
      then have "k < length cs \<and> q = p @ k # r' \<and> hit (cs ! k) t s r' m"
        using r by (simp add: hit_Cons_Element)
      then show ?thesis by blast
    qed
  next
    assume "?A \<or> ?B"
    then show ?L
    proof
      assume ?A
      then have "q = p @ [] \<and> hit ?n t s [] m" by (simp add: hit_Nil)
      then show ?L by blast
    next
      assume ?B
      then obtain k r where "k < length cs" "q = p @ k # r" "hit (cs ! k) t s r m" by blast
      then have "q = p @ (k # r) \<and> hit ?n t s (k # r) m" by (simp add: hit_Cons_Element)
      then show ?L by blast
    qed
  qed
  moreover have "((q, m) \<in> set (if match_tag etag t \<and> match_selector attrs s then [(p, ?n)] else []))
      = (q = p \<and> m = ?n \<and> is_match ?n t s)"
    by auto
  ultimately show ?case unfolding find_nodes_Element set_append Un_iff ch by simp
qed (simp_all add: hit_not_Element)

lemma find_nodes_children_member':
  "((q, m) \<in> set (find_nodes_children p i cs t s [])) =
     (\<exists>k r. k < length cs \<and> q = p @ (i + k) # r \<and> hit (cs ! k) t s r m)"
  by (rule find_nodes_children_member) (rule find_nodes_member)

lemma in_map_fst: "x \<in> set (map fst L) \<Longrightarrow> \<exists>m. (x, m) \<in> set L"
  by (induction L) auto

lemma map_fst_find_nodes_Element:
  "map fst (find_nodes p (Element etag attrs cs) t s []) =
     (if match_tag etag t \<and> match_selector attrs s then [p] else [])
     @ map fst (find_nodes_children p 0 cs t s [])"
  by (simp only: find_nodes_Element map_append) simp

lemma doc_before_append: "doc_before (p @ a) (p @ b) = doc_before a b"
  by (induction p) simp_all

lemma doc_before_asym: "doc_before p q \<Longrightarrow> \<not> doc_before q p"
  by (induction p q rule: doc_before.induct) auto

lemma strict_prefix_doc_before: "strict_prefix p q \<Longrightarrow> doc_before p q"
proof -
  assume "strict_prefix p q"
  then obtain j r where q: "q = p @ j # r" by (rule strict_prefixE')
  have "doc_before (p @ []) (p @ j # r)" unfolding doc_before_append by simp
  then show ?thesis using q by simp
qed

lemma sorted_children:
  assumes "\<And>c p. c \<in> set cs \<Longrightarrow> sorted_wrt doc_before (map fst (find_nodes p c t s []))"
  shows "sorted_wrt doc_before (map fst (find_nodes_children p i cs t s []))"
  using assms
proof (induction cs arbitrary: i)
  case Nil
  show ?case by simp
next
  case (Cons c cs)
  have a: "sorted_wrt doc_before (map fst (find_nodes (p @ [i]) c t s []))"
    by (rule Cons.prems) simp
  have b: "sorted_wrt doc_before (map fst (find_nodes_children p (Suc i) cs t s []))"
    by (rule Cons.IH) (rule Cons.prems, simp)
  have x: "doc_before x y"
    if hx: "x \<in> set (map fst (find_nodes (p @ [i]) c t s []))"
      and hy: "y \<in> set (map fst (find_nodes_children p (Suc i) cs t s []))" for x y
  proof -
    from in_map_fst [OF hx] obtain m where "(x, m) \<in> set (find_nodes (p @ [i]) c t s [])" ..
    then have "\<exists>r. x = (p @ [i]) @ r \<and> hit c t s r m" by (simp only: find_nodes_member)
    then obtain r where x: "x = p @ i # r" by auto
    from in_map_fst [OF hy] obtain m' where "(y, m') \<in> set (find_nodes_children p (Suc i) cs t s [])" ..
    then have "\<exists>k r. k < length cs \<and> y = p @ (Suc i + k) # r \<and> hit (cs ! k) t s r m'"
      by (simp only: find_nodes_children_member')
    then obtain k r' where y: "y = p @ (Suc i + k) # r'" by blast
    show ?thesis unfolding x y doc_before_append by simp
  qed
  show ?case unfolding find_nodes_children_Cons map_append sorted_wrt_append
    using a b x by blast
qed

lemma sorted_find_nodes: "sorted_wrt doc_before (map fst (find_nodes p n t s []))"
proof (induction n arbitrary: p)
  case (Element etag attrs cs)
  have b: "sorted_wrt doc_before (map fst (find_nodes_children p 0 cs t s []))"
    by (rule sorted_children) (rule Element.IH)
  have x: "doc_before p y" if hy: "y \<in> set (map fst (find_nodes_children p 0 cs t s []))" for y
  proof -
    from in_map_fst [OF hy] obtain m' where "(y, m') \<in> set (find_nodes_children p 0 cs t s [])" ..
    then have "\<exists>k r. k < length cs \<and> y = p @ (0 + k) # r \<and> hit (cs ! k) t s r m'"
      by (simp only: find_nodes_children_member')
    then obtain k r' where y: "y = p @ (0 + k) # r'" by blast
    have "doc_before (p @ []) (p @ (0 + k) # r')" unfolding doc_before_append by simp
    then show ?thesis using y by simp
  qed
  show ?case
  proof (cases "match_tag etag t \<and> match_selector attrs s")
    case True
    show ?thesis unfolding map_fst_find_nodes_Element using b x by (simp add: True)
  next
    case False
    show ?thesis unfolding map_fst_find_nodes_Element using b by (simp add: False)
  qed
qed simp_all

lemma subseq_children:
  assumes "\<And>c p. c \<in> set cs \<Longrightarrow> subseq (map fst (find_nodes p c t s [])) (preorder p c)"
  shows "subseq (map fst (find_nodes_children p i cs t s [])) (preorder_children p i cs)"
  using assms
proof (induction cs arbitrary: i)
  case Nil
  show ?case by simp
next
  case (Cons c cs)
  have a: "subseq (map fst (find_nodes (p @ [i]) c t s [])) (preorder (p @ [i]) c)"
    by (rule Cons.prems) simp
  have b: "subseq (map fst (find_nodes_children p (Suc i) cs t s [])) (preorder_children p (Suc i) cs)"
    by (rule Cons.IH) (rule Cons.prems, simp)
  show ?case unfolding find_nodes_children_Cons map_append preorder_children.simps
    using a b by (rule list_emb_append_mono)
qed

lemma subseq_find_nodes: "subseq (map fst (find_nodes p n t s [])) (preorder p n)"
proof (induction n arbitrary: p)
  case (Element etag attrs cs)
  have b: "subseq (map fst (find_nodes_children p 0 cs t s [])) (preorder_children p 0 cs)"
    by (rule subseq_children) (rule Element.IH)
  show ?case
  proof (cases "match_tag etag t \<and> match_selector attrs s")
    case True
    show ?thesis unfolding map_fst_find_nodes_Element using b by (simp add: True)
  next
    case False
    show ?thesis unfolding map_fst_find_nodes_Element using b by (simp add: False list_emb_Cons)
  qed
qed simp_all

lemma ancestor_first:
  assumes "sorted_wrt doc_before ps" "i < length ps" "j < length ps"
    "strict_prefix (ps ! i) (ps ! j)"
  shows "i < j"
proof (rule ccontr)
  assume "\<not> i < j"
  then consider "i = j" | "j < i" by linarith
  then show False
  proof cases
    case 1
    then show False using assms(4) by simp
  next
    case 2
    then have "doc_before (ps ! j) (ps ! i)" using assms(1,2) by (simp add: sorted_wrt_nth_less)
    moreover have "doc_before (ps ! i) (ps ! j)" using assms(4) by (rule strict_prefix_doc_before)
    ultimately show False using doc_before_asym by blast
  qed
qed

lemma hit_trans:
  "searched n q \<Longrightarrow> node_at n q = Some m \<Longrightarrow> searched m r \<Longrightarrow> node_at m r = Some m'
   \<Longrightarrow> searched n (q @ r) \<and> node_at n (q @ r) = Some m'"
proof (induction q arbitrary: n)
  case Nil
  then show ?case by simp
next
  case (Cons i q)
  then show ?case by (cases n) auto
qed

text \<open>
  Claim C8.  For every tree \<open>doc\<close> and every (tag, selector) pair, the nodes
  \<open>find_nodes\<close> returns, started on an empty vector: their positions are a subsequence of
  the pre-order listing of the positions of \<open>doc\<close> and are strictly increasing in document
  order; a returned node stands before every returned descendant of it; the returned
  nodes are exactly the matching elements of \<open>doc\<close> reached through elements (so each is a
  node of the searched tree, found at its position); every matching element reached
  from a returned node is returned too (matches nest); and the search only appends to the
  vector it is given.
\<close>

theorem find_nodes_document_order:
  "(let res = find_nodes [] doc tag selector [] in
      subseq (map fst res) (preorder [] doc)
    \<and> sorted_wrt doc_before (map fst res)
    \<and> (\<forall>i j. i < length res \<and> j < length res \<and> strict_prefix (fst (res ! i)) (fst (res ! j))
           \<longrightarrow> i < j)
    \<and> (\<forall>q m. ((q, m) \<in> set res)
           = (searched doc q \<and> node_at doc q = Some m \<and> is_match m tag selector))
    \<and> (\<forall>q m r m'. (q, m) \<in> set res \<and> searched m r \<and> node_at m r = Some m'
           \<and> is_match m' tag selector \<longrightarrow> (q @ r, m') \<in> set res)
    \<and> (\<forall>out. find_nodes [] doc tag selector out = out @ res))"
proof -
  let ?res = "find_nodes [] doc tag selector []"
  have 1: "subseq (map fst ?res) (preorder [] doc)" by (rule subseq_find_nodes)
  have 2: "sorted_wrt doc_before (map fst ?res)" by (rule sorted_find_nodes)
  have 3: "i < j" if "i < length ?res \<and> j < length ?res
      \<and> strict_prefix (fst (?res ! i)) (fst (?res ! j))" for i j
  proof (rule ancestor_first [OF 2])
    show "i < length (map fst ?res)" "j < length (map fst ?res)" using that by simp_all
    show "strict_prefix (map fst ?res ! i) (map fst ?res ! j)" using that by simp
  qed
  have 4: "((q, m) \<in> set ?res)
      = (searched doc q \<and> node_at doc q = Some m \<and> is_match m tag selector)" for q m
    by (simp only: find_nodes_member hit_def append_Nil ex_simps simp_thms)
  have 5: "(q @ r, m') \<in> set ?res"
    if h: "(q, m) \<in> set ?res \<and> searched m r \<and> node_at m r = Some m' \<and> is_match m' tag selector"
    for q m r m'
  proof -
    have a: "searched doc q" "node_at doc q = Some m" using h unfolding 4 by simp_all
    have "searched doc (q @ r) \<and> node_at doc (q @ r) = Some m'"
      using a h by (intro hit_trans [of doc q m r m']) simp_all
    then show ?thesis unfolding 4 using h by simp
  qed
  have 6: "find_nodes [] doc tag selector out = out @ ?res" for out
    by (rule find_nodes_acc)
  show ?thesis unfolding Let_def using 1 2 3 4 5 6 by blast
qed

lemma find_nodes_job_card:
  "find_nodes [] job_card '''' '''' [] =
     [([], job_card),
      ([0], Element (Some ''h2'') [(''class'', ''title'')]
              [Element (Some ''a'') [(''href'', ''/jobs/42'')] [Text ''Engineer'']]),
      ([0, 0], Element (Some ''a'') [(''href'', ''/jobs/42'')] [Text ''Engineer'']),
      ([1], Element (Some ''span'') [(''class'', ''company'')] [Text ''Acme''])]"
  by (simp add: job_card_def match_tag_def match_selector_def)

lemma preorder_job_card:
  "preorder [] job_card = [[], [0], [0, 0], [0, 0, 0], [1], [1, 0]]"
  by (simp add: job_card_def)

theorem find_nodes_document_order_witness:
  "map fst (find_nodes [] job_card '''' '''' []) = [[], [0], [0, 0], [1]]
   \<and> subseq [[], [0], [0, 0], [1]] [[], [0], [0, 0], [0, 0, 0], [1], [1, 0]]
   \<and> sorted_wrt doc_before [[], [0], [0, 0], [1]]
   \<and> ([0, 0], Element (Some ''a'') [(''href'', ''/jobs/42'')] [Text ''Engineer''])
        \<in> set (find_nodes [] job_card '''' '''' [])
   \<and> node_at job_card [0, 0] = Some (Element (Some ''a'') [(''href'', ''/jobs/42'')] [Text ''Engineer''])"
  using find_nodes_document_order [of job_card "''''" "''''"]
  unfolding Let_def find_nodes_job_card preorder_job_card
  by (simp add: job_card_def)

section \<open>Properties of the URL normalizer\<close>

lemmas normalize_url_defs = normalize_url_def str_rfind_def str_find_def find_last_of_def append_to_base_def


lemma str_rfind_0: "(str_rfind url needle 0 = Some 0) = prefix needle url"
  by (auto simp: str_rfind_def dest: prefix_length_le)

lemma str_find_aux_skip:
  "\<forall>c\<in>set xs. c \<noteq> hd needle \<Longrightarrow> needle \<noteq> [] \<Longrightarrow>
   str_find_aux needle (xs @ ys) i = str_find_aux needle ys (i + length xs)"
proof (induction xs arbitrary: i)
  case Nil
  show ?case by simp
next
  case (Cons x xs)
  have "\<not> prefix needle (x # xs @ ys)"
    using Cons.prems by (cases needle) auto
  then show ?case using Cons by simp
qed

lemma str_find_aux_hit:
  "prefix needle ys \<Longrightarrow> str_find_aux needle ys i = Some i"
  by (cases ys) auto

lemma find_last_of_aux_append:
  "find_last_of_aux (xs @ ys) c i found =
     find_last_of_aux ys c (i + length xs) (find_last_of_aux xs c i found)"
  by (induction xs arbitrary: i found) simp_all

lemma find_last_of_aux_absent: "c \<notin> set ys \<Longrightarrow> find_last_of_aux ys c i found = found"
  by (induction ys arbitrary: i found) auto

lemma find_last_of_split:
  "c \<notin> set seg \<Longrightarrow> find_last_of (d @ c # seg) c = Some (length d)"
  by (simp add: find_last_of_def find_last_of_aux_append find_last_of_aux_absent)

lemma normalize_url_http: "prefix ''http'' url \<Longrightarrow> normalize_url url base = Some url"
proof -
  assume p: "prefix ''http'' url"
  then have "url \<noteq> []" by auto
  then show ?thesis using p by (simp add: normalize_url_def str_rfind_0)
qed

lemma str_find_scheme:
  assumes "CHR '':'' \<notin> set scheme"
  shows "str_find (scheme @ ''://'' @ t) ''://'' 0 = Some (length scheme)"
proof -
  have "str_find_aux ''://'' (scheme @ ''://'' @ t) 0
      = str_find_aux ''://'' (''://'' @ t) (0 + length scheme)"
    by (rule str_find_aux_skip) (use assms in auto)
  also have "\<dots> = Some (0 + length scheme)"
    by (rule str_find_aux_hit) simp
  finally show ?thesis by (simp add: str_find_def)
qed

lemma str_find_host:
  assumes "CHR ''/'' \<notin> set host" "rest = [] \<or> hd rest = CHR ''/''"
  shows "str_find (scheme @ ''://'' @ host @ rest) ''/'' (length scheme + 3)
      = (if rest = [] then None else Some (length scheme + 3 + length host))"
proof -
  have d: "drop (length scheme + 3) (scheme @ ''://'' @ host @ rest) = host @ rest"
    by simp
  have s: "str_find_aux ''/'' (host @ rest) (length scheme + 3)
      = str_find_aux ''/'' rest (length scheme + 3 + length host)"
    by (rule str_find_aux_skip) (use assms in auto)
  have "str_find (scheme @ ''://'' @ host @ rest) ''/'' (length scheme + 3)
      = str_find_aux ''/'' rest (length scheme + 3 + length host)"
    unfolding str_find_def d s by simp
  also have "\<dots> = (if rest = [] then None else Some (length scheme + 3 + length host))"
  proof (cases rest)
    case Nil
    then show ?thesis by simp
  next
    case (Cons c cs)
    then have "c = CHR ''/''" using assms(2) by simp
    then show ?thesis using Cons by simp
  qed
  finally show ?thesis .
qed

lemma normalize_url_root_relative:
  assumes "CHR '':'' \<notin> set scheme" "CHR ''/'' \<notin> set host" "rest = [] \<or> hd rest = CHR ''/''"
  shows "normalize_url (CHR ''/'' # u) (scheme @ ''://'' @ host @ rest)
      = Some (scheme @ ''://'' @ host @ CHR ''/'' # u)"
proof -
  let ?b = "scheme @ ''://'' @ host @ rest"
  have h: "str_rfind (CHR ''/'' # u) ''http'' 0 \<noteq> Some 0"
    by (simp add: str_rfind_0)
  have s1: "str_find ?b ''://'' 0 = Some (length scheme)"
    using assms(1) by (rule str_find_scheme)
  have s2: "str_find ?b ''/'' (length scheme + 3)
      = (if rest = [] then None else Some (length scheme + 3 + length host))"
    using assms(2,3) by (rule str_find_host)
  have t: "take (length scheme + 3 + length host) ?b = scheme @ ''://'' @ host"
    by (simp add: numeral_3_eq_3)
  have "normalize_url (CHR ''/'' # u) ?b =
      (case str_find ?b ''/'' (length scheme + 3) of
         None \<Rightarrow> Some (?b @ CHR ''/'' # u)
       | Some domain_end \<Rightarrow> Some (take domain_end ?b @ CHR ''/'' # u))"
    unfolding normalize_url_def
    by (simp only: s1 h option.case list.simps if_False if_True list.sel simp_thms)
  also have "\<dots> = Some (scheme @ ''://'' @ host @ CHR ''/'' # u)"
  proof (cases "rest = []")
    case True
    show ?thesis unfolding s2 by (simp add: True)
  next
    case False
    show ?thesis unfolding s2 by (simp only: False if_False option.case t) simp
  qed
  finally show ?thesis .
qed

lemma normalize_url_directory:
  assumes "url \<noteq> []" "\<not> prefix ''http'' url" "hd url \<noteq> CHR ''/''"
    "CHR ''/'' \<notin> set seg" "length d > 8"
  shows "normalize_url url (d @ CHR ''/'' # seg) = Some (d @ CHR ''/'' # url)"
proof -
  have f: "find_last_of (d @ CHR ''/'' # seg) CHR ''/'' = Some (length d)"
    using assms(4) by (rule find_last_of_split)
  show ?thesis
    unfolding normalize_url_def f using assms by (simp add: str_rfind_0)
qed

lemma normalize_url_bare_host:
  assumes "url \<noteq> []" "\<not> prefix ''http'' url" "hd url \<noteq> CHR ''/''"
    "scheme = ''http'' \<or> scheme = ''https''" "host \<noteq> []" "CHR ''/'' \<notin> set host"
  shows "normalize_url url (scheme @ ''://'' @ host) = Some (scheme @ ''://'' @ host @ ''/'' @ url)"
proof -
  have "find_last_of ((scheme @ '':/'') @ CHR ''/'' # host) CHR ''/'' = Some (length (scheme @ '':/''))"
    using assms(6) by (rule find_last_of_split)
  then have f: "find_last_of (scheme @ ''://'' @ host) CHR ''/'' = Some (length scheme + 2)"
    by simp
  have l: "length scheme + 2 \<le> 8" using assms(4) by auto
  have b: "last (scheme @ ''://'' @ host) \<noteq> CHR ''/''"
    using assms(5,6) by (simp add: last_append) (metis last_in_set)
  show ?thesis
    unfolding normalize_url_def f append_to_base_def using assms(1,2,3) l b
    by (simp add: str_rfind_0)
qed

text \<open>
  Claim C7, as amended.  \<open>normalize_url\<close> leaves every URL that begins with \<open>http\<close>
  unchanged; it appends a root-relative URL to the scheme and host of the base; and it
  appends any other non-empty URL that does not begin with \<open>http\<close> to the directory of the
  base: to the base cut after its last slash when that slash lies beyond index 8, and to
  the base followed by a slash when the base is \<open>http://host\<close> or \<open>https://host\<close> without a
  path.  The two examples of the specification hold.
\<close>

theorem normalize_url_resolution:
  "(prefix ''http'' url \<longrightarrow> normalize_url url base = Some url)
 \<and> (CHR '':'' \<notin> set scheme \<and> CHR ''/'' \<notin> set host \<and> (rest = [] \<or> hd rest = CHR ''/'')
      \<longrightarrow> normalize_url (CHR ''/'' # u) (scheme @ ''://'' @ host @ rest)
          = Some (scheme @ ''://'' @ host @ CHR ''/'' # u))
 \<and> (url \<noteq> [] \<and> \<not> prefix ''http'' url \<and> hd url \<noteq> CHR ''/''
      \<and> CHR ''/'' \<notin> set seg \<and> length d > 8
      \<longrightarrow> normalize_url url (d @ CHR ''/'' # seg) = Some (d @ CHR ''/'' # url))
 \<and> (url \<noteq> [] \<and> \<not> prefix ''http'' url \<and> hd url \<noteq> CHR ''/''
      \<and> (scheme' = ''http'' \<or> scheme' = ''https'') \<and> host' \<noteq> [] \<and> CHR ''/'' \<notin> set host'
      \<longrightarrow> normalize_url url (scheme' @ ''://'' @ host') = Some (scheme' @ ''://'' @ host' @ ''/'' @ url))
 \<and> normalize_url ''/a/b'' ''https://x.com/c'' = Some ''https://x.com/a/b''
 \<and> normalize_url ''a/b'' ''https://x.com/c/'' = Some ''https://x.com/c/a/b''"
proof -
  have e1: "normalize_url ''/a/b'' ''https://x.com/c'' = Some ''https://x.com/a/b''"
    by (simp add: normalize_url_defs)
  have e2: "normalize_url ''a/b'' ''https://x.com/c/'' = Some ''https://x.com/c/a/b''"
    by (simp add: normalize_url_defs)
  show ?thesis
    using normalize_url_http normalize_url_root_relative normalize_url_directory
      normalize_url_bare_host e1 e2
    by (intro conjI impI) blast+
qed

theorem normalize_url_resolution_witness:
  "normalize_url ''https://y.org/z'' ''https://x.com/c'' = Some ''https://y.org/z''
 \<and> normalize_url ''/jobs/42'' ''https://www.dice.com/jobs?q=x'' = Some ''https://www.dice.com/jobs/42''
 \<and> normalize_url ''view/7'' ''https://www.dice.com/jobs/list'' = Some ''https://www.dice.com/jobs/view/7''
 \<and> normalize_url ''view/7'' ''https://www.dice.com'' = Some ''https://www.dice.com/view/7''"
  using normalize_url_resolution [of "''https://y.org/z''" "''https://x.com/c''" "''https''"
      "''www.dice.com''" "''/jobs?q=x''" "''jobs/42''" "''list''" "''https://www.dice.com/jobs''"
      "''https''" "''www.dice.com''"]
    normalize_url_resolution [of "''view/7''" "''''" "''''" "''''" "''''" "''''" "''list''"
      "''https://www.dice.com/jobs''" "''https''" "''www.dice.com''"]
  by simp

text \<open>
  A base whose last slash lies at index 8 or before, but after the scheme, is not cut
  after that slash: the URL is appended to the whole base.
\<close>

lemma normalize_url_short_host: "normalize_url ''a'' ''http://a/b'' = Some ''http://a/b/a''"
  by (simp add: normalize_url_defs)

text \<open>
  Claim C7 as stated fails: an absolute URL with a scheme other than http(s) is not left
  unchanged, it is appended to the directory of the base.
\<close>

theorem normalize_url_other_scheme:
  "normalize_url ''ftp://h/x'' ''https://x.com/c/'' = Some ''https://x.com/c/ftp://h/x''
 \<and> normalize_url ''ftp://h/x'' ''https://x.com/c/'' \<noteq> Some ''ftp://h/x''"
  by (simp add: normalize_url_defs)

section \<open>Properties of the field extractor and of the crawl loop\<close>

lemma map_of_obj_set: "map_of (obj_set k v j) k' = (if k' = k then Some v else map_of j k')"
  by (induction j) auto


lemma scrape_details_record:
  "scrape_details n cfg search_cfg now =
     (case extract_job_url n cfg of
        None \<Rightarrow> None
      | Some job_url \<Rightarrow>
          (let j = record_fields n cfg search_cfg now job_url in
           if keywords' search_cfg \<noteq> [] then
             (case json_value (JObject j) ''description'' '''' of
                None \<Rightarrow> None
              | Some description \<Rightarrow>
                  (case json_value (JObject j) ''title'' '''' of
                     None \<Rightarrow> None
                   | Some title \<Rightarrow>
                       if \<not> keyword_match search_cfg description title then Some JNull
                       else Some (JObject j)))
           else Some (JObject j)))"
  by (simp add: scrape_details_def record_fields_def Let_def split: option.splits)

lemma map_of_extract_title:
  "map_of (extract_title n cfg j) k =
     (if k = ''title'' \<and> title_tag cfg \<noteq> []
         \<and> find_nodes [] n (title_tag cfg) (title_class cfg) [] \<noteq> []
      then Some (JString (clean_text (extract_text
             (snd (hd (find_nodes [] n (title_tag cfg) (title_class cfg) []))))))
      else map_of j k)"
  by (simp add: extract_title_def Let_def map_of_obj_set)

lemma map_of_extract_company:
  "map_of (extract_company n cfg j) k =
     (if k = ''company'' \<and> company_tag cfg \<noteq> []
         \<and> find_nodes [] n (company_tag cfg) (company_class cfg) [] \<noteq> []
      then Some (JString (clean_text (extract_text
             (snd (hd (find_nodes [] n (company_tag cfg) (company_class cfg) []))))))
      else map_of j k)"
  by (simp add: extract_company_def Let_def map_of_obj_set)

lemma map_of_extract_description:
  "map_of (extract_description n cfg j) k =
     (if k = ''description'' \<and> description_tag cfg \<noteq> []
         \<and> find_nodes [] n (description_tag cfg) (description_class cfg) [] \<noteq> []
      then Some (JString (clean_text (extract_text
             (snd (hd (find_nodes [] n (description_tag cfg) (description_class cfg) []))))))
      else map_of j k)"
  by (simp add: extract_description_def Let_def map_of_obj_set)

lemma map_of_extract_location:
  "map_of (extract_location n cfg search_cfg j) k =
     (if k = ''location'' then
        Some (JString
          (if location_tag cfg \<noteq> []
              \<and> find_nodes [] n (location_tag cfg) (location_class cfg) [] \<noteq> []
           then clean_text (extract_text
                  (snd (hd (find_nodes [] n (location_tag cfg) (location_class cfg) []))))
           else location search_cfg))
      else map_of j k)"
  by (simp add: extract_location_def Let_def map_of_obj_set)

lemmas map_of_blocks = map_of_obj_set map_of_extract_title map_of_extract_company
  map_of_extract_description map_of_extract_location

lemma record_fields_location:
  "map_of (record_fields n cfg search_cfg now job_url) ''location'' =
     Some (JString
       (if location_tag cfg \<noteq> []
           \<and> find_nodes [] n (location_tag cfg) (location_class cfg) [] \<noteq> []
        then clean_text (extract_text
               (snd (hd (find_nodes [] n (location_tag cfg) (location_class cfg) []))))
        else location search_cfg))"
  by (simp add: record_fields_def Let_def map_of_blocks)

lemma record_fields_skills:
  "map_of (record_fields n cfg search_cfg now job_url) ''skills'' =
     Some (JArray (map JString (extract_skills n cfg)))"
  by (simp add: record_fields_def Let_def map_of_blocks)

lemma record_fields_title:
  "map_of (record_fields n cfg search_cfg now job_url) ''title'' =
     (if title_tag cfg \<noteq> [] \<and> find_nodes [] n (title_tag cfg) (title_class cfg) [] \<noteq> []
      then Some (JString (clean_text (extract_text
             (snd (hd (find_nodes [] n (title_tag cfg) (title_class cfg) []))))))
      else None)"
  by (simp add: record_fields_def Let_def map_of_blocks)

lemma record_fields_description:
  "map_of (record_fields n cfg search_cfg now job_url) ''description'' =
     (if description_tag cfg \<noteq> []
         \<and> find_nodes [] n (description_tag cfg) (description_class cfg) [] \<noteq> []
      then Some (JString (clean_text (extract_text
             (snd (hd (find_nodes [] n (description_tag cfg) (description_class cfg) []))))))
      else None)"
  by (simp add: record_fields_def Let_def map_of_blocks)

lemma record_fields_job_id:
  "map_of (record_fields n cfg search_cfg now job_url) ''job_id'' = None"
  by (simp add: record_fields_def Let_def map_of_blocks)


lemma record_fields_values:
  "json_value (JObject (record_fields n cfg search_cfg now job_url)) ''title'' d \<noteq> None"
  "json_value (JObject (record_fields n cfg search_cfg now job_url)) ''description'' d \<noteq> None"
  by (simp_all add: record_fields_title record_fields_description)

lemma normalize_url_defined: "base \<noteq> [] \<Longrightarrow> normalize_url url base \<noteq> None"
  by (simp add: normalize_url_def append_to_base_def split: option.splits)

lemma extract_url_defined: "base \<noteq> [] \<Longrightarrow> extract_url node base \<noteq> None"
  using normalize_url_defined [of base] by (auto simp: extract_url_def Let_def)

lemma extract_job_url_defined: "base_url cfg \<noteq> [] \<Longrightarrow> extract_job_url n cfg \<noteq> None"
proof -
  assume b: "base_url cfg \<noteq> []"
  let ?nodes = "find_nodes [] n (url_tag cfg) (url_class cfg) []"
  obtain y where y: "extract_url (snd (hd ?nodes)) (base_url cfg) = Some y"
    using extract_url_defined [OF b] by blast
  obtain z where z: "normalize_url (extract_attr (snd (hd ?nodes)) ''href'') (base_url cfg) = Some z"
    using normalize_url_defined [OF b] by blast
  obtain w where w: "extract_url n (base_url cfg) = Some w"
    using extract_url_defined [OF b] by blast
  show ?thesis by (simp add: extract_job_url_def Let_def y z w)
qed

lemma scrape_details_defined:
  "base_url cfg \<noteq> [] \<Longrightarrow> scrape_details n cfg search_cfg now \<noteq> None"
proof -
  assume "base_url cfg \<noteq> []"
  then obtain u where u: "extract_job_url n cfg = Some u"
    using extract_job_url_defined by blast
  obtain d t where
    "json_value (JObject (record_fields n cfg search_cfg now u)) ''description'' '''' = Some d"
    "json_value (JObject (record_fields n cfg search_cfg now u)) ''title'' '''' = Some t"
    using record_fields_values by blast
  then show ?thesis
    unfolding scrape_details_record u Let_def by (simp del: json_value.simps)
qed

lemma scrape_details_result:
  assumes "scrape_details n cfg search_cfg now = Some job"
  shows "\<exists>u d t. extract_job_url n cfg = Some u
     \<and> json_value (JObject (record_fields n cfg search_cfg now u)) ''description'' '''' = Some d
     \<and> json_value (JObject (record_fields n cfg search_cfg now u)) ''title'' '''' = Some t
     \<and> (if keywords' search_cfg \<noteq> [] \<and> \<not> keyword_match search_cfg d t then job = JNull
         else job = JObject (record_fields n cfg search_cfg now u))"
proof -
  obtain u where u: "extract_job_url n cfg = Some u"
    using assms by (auto simp: scrape_details_record split: option.splits)
  obtain d t where dt:
    "json_value (JObject (record_fields n cfg search_cfg now u)) ''description'' '''' = Some d"
    "json_value (JObject (record_fields n cfg search_cfg now u)) ''title'' '''' = Some t"
    using record_fields_values by blast
  have "if keywords' search_cfg \<noteq> [] \<and> \<not> keyword_match search_cfg d t then job = JNull
        else job = JObject (record_fields n cfg search_cfg now u)"
    using assms unfolding scrape_details_record u Let_def
    by (simp add: dt del: json_value.simps split: if_splits)
  then show ?thesis using u dt by blast
qed

lemma scrape_details_nonempty:
  assumes "scrape_details n cfg search_cfg now = Some job" "\<not> json_empty job"
  shows "\<exists>u. job = JObject (record_fields n cfg search_cfg now u)"
  using scrape_details_result [OF assms(1)] assms(2) by (auto split: if_splits)

lemma scrape_job_card:
  "scrape_details job_card example_site example_search ''2025-01-01 10:00:00'' = Some engineer_record"
  by code_simp

lemma scrape_untitled_card:
  "scrape_details untitled_card example_site example_search ''2025-01-01 10:00:00'' = Some untitled_record"
  by code_simp


lemma scrape_untitled_card_python:
  "scrape_details untitled_card example_site python_search ''2025-01-01 10:00:00'' = Some untitled_record"
  by code_simp

text \<open>
  Claim C9.  If the descriptor configures no location selector, or the selector matches
  no node, the location field of the extracted record is the location of the search
  configuration.  The location field of every record that is not filtered out is present.
  (\<open>scrape_details\<close> returns a value whenever the base URL of the site is not empty.)
\<close>

theorem scrape_details_location:
  "(base_url cfg \<noteq> [] \<longrightarrow> scrape_details n cfg search_cfg now \<noteq> None)
 \<and> (scrape_details n cfg search_cfg now = Some job \<and> \<not> json_empty job \<longrightarrow>
      (\<exists>j loc. job = JObject j \<and> map_of j ''location'' = Some (JString loc)
         \<and> (location_tag cfg = []
              \<or> find_nodes [] n (location_tag cfg) (location_class cfg) [] = []
             \<longrightarrow> loc = location search_cfg)))"
proof (intro conjI impI)
  assume "base_url cfg \<noteq> []"
  then show "scrape_details n cfg search_cfg now \<noteq> None" by (rule scrape_details_defined)
next
  assume a: "scrape_details n cfg search_cfg now = Some job \<and> \<not> json_empty job"
  then obtain u where u: "job = JObject (record_fields n cfg search_cfg now u)"
    using scrape_details_nonempty by blast
  let ?loc = "if location_tag cfg \<noteq> []
           \<and> find_nodes [] n (location_tag cfg) (location_class cfg) [] \<noteq> []
        then clean_text (extract_text
               (snd (hd (find_nodes [] n (location_tag cfg) (location_class cfg) []))))
        else location search_cfg"
  have "map_of (record_fields n cfg search_cfg now u) ''location'' = Some (JString ?loc)"
    by (rule record_fields_location)
  moreover have "location_tag cfg = []
      \<or> find_nodes [] n (location_tag cfg) (location_class cfg) [] = []
     \<longrightarrow> ?loc = location search_cfg"
    by auto
  ultimately show "\<exists>j loc. job = JObject j \<and> map_of j ''location'' = Some (JString loc)
         \<and> (location_tag cfg = []
              \<or> find_nodes [] n (location_tag cfg) (location_class cfg) [] = []
             \<longrightarrow> loc = location search_cfg)"
    using u by blast
qed

theorem scrape_details_location_witness:
  "scrape_details job_card example_site example_search ''2025-01-01 10:00:00'' = Some engineer_record
 \<and> location_tag example_site = []
 \<and> (\<exists>j. engineer_record = JObject j \<and> map_of j ''location'' = Some (JString ''Remote''))"
proof -
  have e: "\<not> json_empty engineer_record" by (simp add: engineer_record_def)
  have l: "location_tag example_site = []" by (simp add: example_site_def)
  have s: "location example_search = ''Remote''" by (simp add: example_search_def)
  from scrape_details_location [of example_site job_card example_search "''2025-01-01 10:00:00''"
      engineer_record]
  have "\<exists>j loc. engineer_record = JObject j \<and> map_of j ''location'' = Some (JString loc)
         \<and> (location_tag example_site = []
              \<or> find_nodes [] job_card (location_tag example_site) (location_class example_site) [] = []
             \<longrightarrow> loc = location example_search)"
    using scrape_job_card e by blast
  then show ?thesis using scrape_job_card l s by auto
qed

lemma record_fields_keys:
  "map_of (record_fields n cfg search_cfg now u) k \<noteq> None \<Longrightarrow>
   k \<in> {''source'', ''scraped_at'', ''title'', ''location'', ''company'', ''description'', ''skills''}"
  by (simp add: record_fields_def Let_def map_of_blocks split: if_splits)

lemma scrape_details_object:
  assumes "scrape_details n cfg search_cfg now = Some (JObject j)"
  shows "\<exists>u. j = record_fields n cfg search_cfg now u"
  using scrape_details_result [OF assms] by (auto split: if_splits)

text \<open>
  Claim C5, as amended.  A record produced by \<open>scrape_details\<close> has no \<open>job_id\<close> field:
  its fields are among source, scraped_at, title, location, company, description and
  skills.
\<close>

theorem scrape_details_no_job_id:
  "scrape_details n cfg search_cfg now = Some (JObject j) \<longrightarrow>
     map_of j ''job_id'' = None
   \<and> fst ` set j \<subseteq> {''source'', ''scraped_at'', ''title'', ''location'', ''company'',
        ''description'', ''skills''}"
proof
  assume "scrape_details n cfg search_cfg now = Some (JObject j)"
  then obtain u where u: "j = record_fields n cfg search_cfg now u"
    using scrape_details_object by blast
  have 1: "map_of j ''job_id'' = None" unfolding u by (rule record_fields_job_id)
  have 2: "k \<in> {''source'', ''scraped_at'', ''title'', ''location'', ''company'',
        ''description'', ''skills''}" if "k \<in> fst ` set j" for k
  proof -
    have "map_of j k \<noteq> None" using that by (simp add: map_of_eq_None_iff)
    then show ?thesis unfolding u by (rule record_fields_keys)
  qed
  show "map_of j ''job_id'' = None
   \<and> fst ` set j \<subseteq> {''source'', ''scraped_at'', ''title'', ''location'', ''company'',
        ''description'', ''skills''}"
    using 1 2 by blast
qed

theorem scrape_details_no_job_id_witness:
  "scrape_details job_card example_site example_search ''2025-01-01 10:00:00'' = Some engineer_record
 \<and> json_value engineer_record ''job_id'' ''absent'' = Some ''absent''"
proof -
  obtain j where j: "engineer_record = JObject j" by (simp add: engineer_record_def)
  have "map_of j ''job_id'' = None"
    using scrape_details_no_job_id [of job_card example_site example_search
        "''2025-01-01 10:00:00''" j] scrape_job_card j by simp
  then have "json_value engineer_record ''job_id'' ''absent'' = Some ''absent''"
    unfolding j by simp
  then show ?thesis using scrape_job_card by simp
qed

text \<open>
  Claim C5 as stated fails: the record extracted from the example container has no
  \<open>job_id\<close> field.
\<close>

theorem scrape_details_job_card_lacks_job_id:
  "scrape_details job_card example_site example_search ''2025-01-01 10:00:00''
     = Some (JObject
        [(''source'', JString ''https://jobs.example.com/jobs/42''),
         (''scraped_at'', JString ''2025-01-01 10:00:00''),
         (''title'', JString ''Engineer''), (''location'', JString ''Remote''),
         (''company'', JString ''Acme''), (''skills'', JArray [])])
 \<and> map_of [(''source'', JString ''https://jobs.example.com/jobs/42''),
         (''scraped_at'', JString ''2025-01-01 10:00:00''),
         (''title'', JString ''Engineer''), (''location'', JString ''Remote''),
         (''company'', JString ''Acme''), (''skills'', JArray [])] ''job_id'' = None"
  by code_simp

lemma regex_trim_Nil: "regex_trim [] = []"
  by (simp add: regex_trim_def)

lemma skills_loop_filter:
  "skills_loop toks skills = skills @ filter (\<lambda>s. s \<noteq> []) (map regex_trim toks)"
  by (induction toks arbitrary: skills) (simp_all add: Let_def regex_trim_Nil)

lemma split_commas_not_Nil: "split_commas s \<noteq> []"
  by (induction s) (auto split: list.splits)

lemma getline_all_split:
  "filter (\<lambda>s. s \<noteq> []) (map regex_trim (getline_all s cur)) =
   filter (\<lambda>s. s \<noteq> []) (map regex_trim ((cur @ hd (split_commas s)) # tl (split_commas s)))"
proof (induction s arbitrary: cur)
  case Nil
  show ?case by (simp add: regex_trim_Nil)
next
  case (Cons c cs)
  obtain t ts where sp: "split_commas cs = t # ts"
    using split_commas_not_Nil by (cases "split_commas cs") auto
  show ?case
  proof (cases "c = CHR '',''")
    case True
    have "filter (\<lambda>s. s \<noteq> []) (map regex_trim (getline_all cs []))
        = filter (\<lambda>s. s \<noteq> []) (map regex_trim (split_commas cs))"
      using Cons.IH [of "[]"] sp by simp
    then show ?thesis using True by simp
  next
    case False
    then show ?thesis using Cons.IH [of "cur @ [c]"] sp by simp
  qed
qed

lemma skills_loop_split:
  "skills_loop (getline_all txt '''') [] =
     filter (\<lambda>s. s \<noteq> []) (map regex_trim (split_commas txt))"
proof -
  obtain t ts where sp: "split_commas txt = t # ts"
    using split_commas_not_Nil by (cases "split_commas txt") auto
  have "filter (\<lambda>s. s \<noteq> []) (map regex_trim (getline_all txt [])) =
      filter (\<lambda>s. s \<noteq> []) (map regex_trim (([] @ hd (split_commas txt)) # tl (split_commas txt)))"
    by (rule getline_all_split)
  then show ?thesis by (simp add: skills_loop_filter sp)
qed

text \<open>
  Claim C3, as amended.  The skills field of a record is the list \<open>extract_skills\<close>
  computes.  When the descriptor has no skills selector, or the selector matches nothing,
  that list is empty: the description is not searched for keywords.  When the selector
  matches, the cleaned text of the first match is split on commas, the tokens are trimmed
  and the empty ones dropped.
\<close>

theorem scrape_details_skills:
  "(scrape_details n cfg search_cfg now = Some (JObject j) \<longrightarrow>
      map_of j ''skills'' = Some (JArray (map JString (extract_skills n cfg))))
 \<and> (skills_tag cfg = [] \<or> find_nodes [] n (skills_tag cfg) (skills_class cfg) [] = []
      \<longrightarrow> extract_skills n cfg = [])
 \<and> (skills_tag cfg \<noteq> [] \<and> find_nodes [] n (skills_tag cfg) (skills_class cfg) [] \<noteq> []
      \<longrightarrow> extract_skills n cfg =
            filter (\<lambda>s. s \<noteq> [])
              (map regex_trim
                (split_commas (clean_text (extract_text
                   (snd (hd (find_nodes [] n (skills_tag cfg) (skills_class cfg) []))))))))"
proof (intro conjI impI)
  assume "scrape_details n cfg search_cfg now = Some (JObject j)"
  then obtain u where u: "j = record_fields n cfg search_cfg now u"
    using scrape_details_object by blast
  show "map_of j ''skills'' = Some (JArray (map JString (extract_skills n cfg)))"
    unfolding u by (rule record_fields_skills)
next
  assume "skills_tag cfg = [] \<or> find_nodes [] n (skills_tag cfg) (skills_class cfg) [] = []"
  then show "extract_skills n cfg = []" by (auto simp: extract_skills_def)
next
  assume "skills_tag cfg \<noteq> [] \<and> find_nodes [] n (skills_tag cfg) (skills_class cfg) [] \<noteq> []"
  then show "extract_skills n cfg =
            filter (\<lambda>s. s \<noteq> [])
              (map regex_trim
                (split_commas (clean_text (extract_text
                   (snd (hd (find_nodes [] n (skills_tag cfg) (skills_class cfg) [])))))))"
    by (simp add: extract_skills_def Let_def skills_loop_split)
qed

lemma extract_skills_card: "extract_skills skills_card skills_site = [''Python'', ''C++'', ''SQL'']"
  by code_simp

lemma skills_card_found:
  "skills_tag skills_site \<noteq> []
 \<and> find_nodes [] skills_card (skills_tag skills_site) (skills_class skills_site) [] \<noteq> []"
  by code_simp

lemma untitled_card_no_skills_selector: "skills_tag example_site = []"
  by (simp add: example_site_def)

theorem scrape_details_skills_witness:
  "extract_skills skills_card skills_site = [''Python'', ''C++'', ''SQL'']
 \<and> [''Python'', ''C++'', ''SQL''] =
     filter (\<lambda>s. s \<noteq> [])
       (map regex_trim
         (split_commas (clean_text (extract_text
            (snd (hd (find_nodes [] skills_card (skills_tag skills_site) (skills_class skills_site) [])))))))
 \<and> extract_skills untitled_card example_site = []
 \<and> scrape_details untitled_card example_site example_search ''2025-01-01 10:00:00''
       = Some untitled_record"
proof -
  have a: "extract_skills skills_card skills_site =
     filter (\<lambda>s. s \<noteq> [])
       (map regex_trim
         (split_commas (clean_text (extract_text
            (snd (hd (find_nodes [] skills_card (skills_tag skills_site) (skills_class skills_site) [])))))))"
    using scrape_details_skills [of skills_card skills_site] skills_card_found by blast
  have b: "extract_skills untitled_card example_site = []"
    using scrape_details_skills [of untitled_card example_site] untitled_card_no_skills_selector
    by blast
  show ?thesis using a b extract_skills_card scrape_untitled_card by simp
qed

text \<open>
  Claim C3 as stated fails: without a skills selector the skills of a record are empty,
  although its description contains a keyword of the vocabulary.
\<close>

theorem scrape_details_no_keyword_skills:
  "scrape_details untitled_card example_site example_search ''2025-01-01 10:00:00''
     = Some (JObject
        [(''source'', JString ''Example''),
         (''scraped_at'', JString ''2025-01-01 10:00:00''),
         (''location'', JString ''Remote''), (''company'', JString ''Acme''),
         (''description'', JString ''We need a Python developer''),
         (''skills'', JArray [])])
 \<and> skills_tag example_site = []
 \<and> spec_keyword_skills [''Python'', ''Java''] ''We need a Python developer'' = {''Python''}"
  by code_simp

lemma scrape_containers_appends:
  "scrape_containers cs site search_cfg clock i max_jobs all_jobs = Some out \<Longrightarrow>
   \<exists>added. out = all_jobs @ added
     \<and> (\<forall>job\<in>set added. \<not> json_empty job
           \<and> (\<exists>c\<in>set cs. \<exists>k. scrape_details c site search_cfg (clock k) = Some job))"
proof (induction cs arbitrary: i all_jobs)
  case Nil
  then show ?case by simp
next
  case (Cons c cs)
  from Cons.prems obtain job where job: "scrape_details c site search_cfg (clock i) = Some job"
    by (auto split: option.splits)
  show ?case
  proof (cases "json_empty job")
    case True
    then have "scrape_containers cs site search_cfg clock (Suc i) max_jobs all_jobs = Some out"
      using Cons.prems job by simp
    from Cons.IH [OF this] obtain added where
      "out = all_jobs @ added"
      "\<forall>job\<in>set added. \<not> json_empty job
           \<and> (\<exists>c\<in>set cs. \<exists>k. scrape_details c site search_cfg (clock k) = Some job)"
      by blast
    then have "out = all_jobs @ added
     \<and> (\<forall>job\<in>set added. \<not> json_empty job
           \<and> (\<exists>c'\<in>set (c # cs). \<exists>k. scrape_details c' site search_cfg (clock k) = Some job))"
      by auto
    then show ?thesis by blast
  next
    case False
    show ?thesis
    proof (cases "length (all_jobs @ [job]) \<ge> size_t_of_int max_jobs")
      case True
      then have "out = all_jobs @ [job]"
        using Cons.prems job False by (simp add: Let_def)
      moreover have "\<forall>job'\<in>set [job]. \<not> json_empty job'
           \<and> (\<exists>c'\<in>set (c # cs). \<exists>k. scrape_details c' site search_cfg (clock k) = Some job')"
        using job False by auto
      ultimately show ?thesis by blast
    next
      case nofull: False
      then have "scrape_containers cs site search_cfg clock (Suc i) max_jobs (all_jobs @ [job]) = Some out"
        using Cons.prems job False by (simp add: Let_def)
      from Cons.IH [OF this] obtain added where a:
        "out = (all_jobs @ [job]) @ added"
        "\<forall>job\<in>set added. \<not> json_empty job
           \<and> (\<exists>c\<in>set cs. \<exists>k. scrape_details c site search_cfg (clock k) = Some job)"
        by blast
      have "out = all_jobs @ (job # added)" using a(1) by simp
      moreover have "\<forall>job'\<in>set (job # added). \<not> json_empty job'
           \<and> (\<exists>c'\<in>set (c # cs). \<exists>k. scrape_details c' site search_cfg (clock k) = Some job')"
        using a(2) job False by auto
      ultimately show ?thesis by blast
    qed
  qed
qed







text \<open>
  The records the crawl loop collects are objects whose title and company, where present,
  are strings: the deduplicator returns on them.
\<close>

lemma record_fields_company:
  "map_of (record_fields n cfg search_cfg now job_url) ''company'' =
     (if company_tag cfg \<noteq> [] \<and> find_nodes [] n (company_tag cfg) (company_class cfg) [] \<noteq> []
      then Some (JString (clean_text (extract_text
             (snd (hd (find_nodes [] n (company_tag cfg) (company_class cfg) []))))))
      else None)"
  by (simp add: record_fields_def Let_def map_of_blocks)

lemma record_fields_fingerprint:
  "fingerprint (JObject (record_fields n cfg search_cfg now job_url)) \<noteq> None"
  by (simp add: fingerprint_def record_fields_title record_fields_company)

lemma scrape_containers_deduplicate:
  assumes "scrape_containers cs site search_cfg clock i max_jobs [] = Some all_jobs"
  shows "deduplicate_jobs all_jobs \<noteq> None"
proof -
  from scrape_containers_appends [OF assms] have a:
    "\<forall>job\<in>set all_jobs. \<not> json_empty job
       \<and> (\<exists>c\<in>set cs. \<exists>k. scrape_details c site search_cfg (clock k) = Some job)"
    by simp
  have "\<forall>r\<in>set all_jobs. fingerprint r \<noteq> None"
  proof
    fix r assume "r \<in> set all_jobs"
    then obtain c k where "\<not> json_empty r" "scrape_details c site search_cfg (clock k) = Some r"
      using a by blast
    then obtain u where "r = JObject (record_fields c site search_cfg (clock k) u)"
      using scrape_details_nonempty by blast
    then show "fingerprint r \<noteq> None" by (simp only: record_fields_fingerprint not_False_eq_True)
  qed
  then show ?thesis by (simp add: deduplicate_jobs_survivors)
qed

section \<open>Properties of the rate limiter and of the fetcher\<close>

lemma double_to_rep_1_2: "double_to_rep 12 10 = 1"
  by (simp add: double_to_rep_def)

lemma enforce_rate_limits_required_delay:
  "fst (enforce_rate_limits site_name now rnd now_after rate_limits)
     = base_delay site_name + int (rnd mod 5)"
  by (simp add: enforce_rate_limits_def Let_def double_to_rep_1_2)

text \<open>
  Claim C4 (the code differs).  In backoff mode the required delay is not scaled: the
  factor 1.2 is truncated to 1 when it is converted to the integer count type.  For
  LinkedIn in backoff mode and a jitter of 0 the required delay is 30 seconds, not 36.
\<close>

theorem enforce_rate_limits_backoff_not_scaled:
  "backoff_mode (rate_limits_at linkedin_in_backoff ''LinkedIn'')
 \<and> base_delay ''LinkedIn'' = 30
 \<and> fst (enforce_rate_limits ''LinkedIn'' 7200000000000 0 7200000000000 linkedin_in_backoff) = 30"
  by (simp add: enforce_rate_limits_required_delay base_delay_def linkedin_in_backoff_def
      rate_limits_at_def)

lemma fetch_attempts_http_errors:
  assumes "\<forall>k<n. fst (perform (i + k)) = CURLE_OK
      \<and> \<not> (200 \<le> fst (snd (perform (i + k))) \<and> fst (snd (perform (i + k))) < 300)"
  shows "fst (fetch_attempts perform site_name i n res buffer rate_limits)
       = (if n = 0 then res else CURLE_OK)
     \<and> fst (snd (fetch_attempts perform site_name i n res buffer rate_limits))
       = (if n = 0 then buffer else snd (snd (perform (i + n - 1))))"
  using assms
proof (induction n arbitrary: i res buffer rate_limits)
  case 0
  show ?case by simp
next
  case (Suc n)
  obtain r c b where p: "perform i = (r, c, b)" by (cases "perform i") auto
  have r: "r = CURLE_OK" and c: "\<not> (200 \<le> c \<and> c < 300)"
    using Suc.prems [rule_format, of 0] p by simp_all
  have step: "\<forall>k<n. fst (perform (Suc i + k)) = CURLE_OK
      \<and> \<not> (200 \<le> fst (snd (perform (Suc i + k))) \<and> fst (snd (perform (Suc i + k))) < 300)"
    using Suc.prems by (metis Suc_less_eq add_Suc_shift)
  let ?rl = "if site_name \<noteq> []
               then rate_limits(site_name \<mapsto>
                      record_failure c (rate_limits_at rate_limits site_name))
               else rate_limits"
  have e: "fetch_attempts perform site_name i (Suc n) res buffer rate_limits
      = fetch_attempts perform site_name (Suc i) n CURLE_OK b ?rl"
    using p r c by auto
  show ?case
  proof (cases n)
    case 0
    then show ?thesis unfolding e using p by simp
  next
    case (Suc m)
    then show ?thesis unfolding e using Suc.IH [OF step, of CURLE_OK b ?rl] by simp
  qed
qed

lemma fetch_attempts_transport_errors:
  assumes "\<forall>k<n. fst (perform (i + k)) \<noteq> CURLE_OK"
  shows "fst (fetch_attempts perform site_name i n res buffer rate_limits)
       = (if n = 0 then res else fst (perform (i + n - 1)))"
  using assms
proof (induction n arbitrary: i res buffer rate_limits)
  case 0
  show ?case by simp
next
  case (Suc n)
  obtain r c b where p: "perform i = (r, c, b)" by (cases "perform i") auto
  have r: "r \<noteq> CURLE_OK" using Suc.prems [rule_format, of 0] p by simp
  have step: "\<forall>k<n. fst (perform (Suc i + k)) \<noteq> CURLE_OK"
    using Suc.prems by (metis Suc_less_eq add_Suc_shift)
  have e: "fetch_attempts perform site_name i (Suc n) res buffer rate_limits
      = fetch_attempts perform site_name (Suc i) n r b rate_limits"
    using p r by simp
  show ?case
  proof (cases n)
    case 0
    then show ?thesis unfolding e using p by simp
  next
    case (Suc m)
    then show ?thesis unfolding e using Suc.IH [OF step, of r b rate_limits] by simp
  qed
qed

text \<open>
  Claim C2 (the code differs).  When every attempt completes with HTTP 404, no attempt
  receives a 2xx response, and yet the call does not fail: after the third attempt it
  returns the body of the last response.
\<close>

theorem fetch_page_http_error_returns_body:
  "(\<forall>i. \<not> (200 \<le> fst (snd (always_404 i)) \<and> fst (snd (always_404 i)) < 300))
 \<and> fst (fetch_page True always_404 0 0 0 ''https://jobs.example.com/search'' 3 ''Example'' Map.empty)
     = Inr ''<h1>Not Found</h1>''"
  by (simp add: fetch_page_def always_404_def numeral_3_eq_3 Let_def)

lemma fetch_page_third_attempt_succeeds:
  "fst (fetch_page True throttled_twice_then_ok 0 0 0 ''https://jobs.example.com/search'' 3
         ''Example'' Map.empty) = Inr ''<html>jobs</html>''
 \<and> consecutive_successes (rate_limits_at
       (snd (fetch_page True throttled_twice_then_ok 0 0 0 ''https://jobs.example.com/search'' 3
         ''Example'' Map.empty)) ''Example'') = 1
 \<and> consecutive_failures (rate_limits_at
       (snd (fetch_page True throttled_twice_then_ok 0 0 0 ''https://jobs.example.com/search'' 3
         ''Example'' Map.empty)) ''Example'') = 0"
  by (simp add: fetch_page_def throttled_twice_then_ok_def numeral_3_eq_3 Let_def
      rate_limits_at_def record_success_def record_failure_def enforce_rate_limits_def
      default_RateLimitInfo_def)

end
